theory Spec2Isabelle
  imports Complex_Main "HOL-Library.Log_Nat"
begin

section \<open>The cafe ordering backend (server/index.js)\<close>

text \<open>
  The Express handlers of the backend are embedded as functions on an explicit store
  (the module-level \<^verbatim>\<open>orders\<close>, \<^verbatim>\<open>bills\<close> and \<^verbatim>\<open>otps\<close>). Conventions:
  \<^item> a JavaScript string is a \<open>string\<close>, each character one code unit below 256;
  \<^item> a field of a JSON body that may be missing is an \<open>option\<close>; the values modelled
    are strings and numbers, and a value is falsy when it is missing, the empty string,
    the number 0 or \<^verbatim>\<open>NaN\<close>, as \<^verbatim>\<open>!x\<close> and \<^verbatim>\<open>x || d\<close> have it;
  \<^item> a JavaScript number is a \<open>number\<close>, an IEEE 754 double: prices, quantities,
    amounts, revenues, the average and \<^verbatim>\<open>Math.random()\<close> are of this type, and
    \<^verbatim>\<open>+\<close>, \<^verbatim>\<open>*\<close> and \<^verbatim>\<open>/\<close> on them round as the source's do;
  \<^item> a time in milliseconds (\<^verbatim>\<open>Date.now()\<close>, \<^verbatim>\<open>getTime()\<close>) is an \<open>int\<close>: a time
    value is an integer of magnitude at most \<open>8.64 * 10^15\<close>, and the sums of the
    source on such values (a day's start plus at most 24 hours) stay below \<open>2^53\<close>,
    where doubles are exact; a count (\<^verbatim>\<open>length\<close>) is a \<open>nat\<close>;
  \<^item> \<^verbatim>\<open>Date.now()\<close>, \<^verbatim>\<open>Math.random()\<close>, \<^verbatim>\<open>process.env\<close> and the host's
    \<^verbatim>\<open>Date\<close> parser are parameters of the handlers; the two calls of
    \<^verbatim>\<open>Date.now()\<close> that make an id and a \<^verbatim>\<open>createdAt\<close> are taken to give the same
    value \<open>now\<close>;
  \<^item> the store is the in-memory one: \<^verbatim>\<open>useMongo\<close> is false (its initial value, kept
    unless \<^verbatim>\<open>USE_MONGO=true\<close> and the connection succeeds), so the branches under
    \<^verbatim>\<open>if (useMongo && mongoDb)\<close> are not taken;
  \<^item> a handler returns its HTTP reply, \<open>Inl (status, message)\<close> for
    \<^verbatim>\<open>res.status(status).json({success: false, message})\<close> and \<open>Inr\<close> for a
    success, together with the store after the call.
\<close>

subsection \<open>JavaScript primitives\<close>

text \<open>\<^verbatim>\<open>String(n)\<close> for an integer \<open>n\<close>: its decimal digits, with a sign when negative.\<close>

fun dec :: "nat \<Rightarrow> string" where
  "dec n = (if n < 10 then [''0123456789'' ! n]
            else dec (n div 10) @ [''0123456789'' ! (n mod 10)])"

declare dec.simps [simp del]

definition String_int :: "int \<Rightarrow> string" where
  "String_int i = (if i < 0 then ''-'' @ dec (nat (- i)) else dec (nat i))"

text \<open>\<^verbatim>\<open>s.startsWith(p)\<close>.\<close>

definition startsWith :: "string \<Rightarrow> string \<Rightarrow> bool" where
  "startsWith s p = (take (length p) s = p)"

text \<open>
  \<^verbatim>\<open>s.trim()\<close>: white space and line terminators are dropped at both ends. Below 256
  these are the code units 9 to 13, 32 and 160.
\<close>

definition is_space :: "char \<Rightarrow> bool" where
  "is_space c = ((of_char c :: nat) \<in> {9, 10, 11, 12, 13, 32, 160})"

definition trim :: "string \<Rightarrow> string" where
  "trim s = rev (dropWhile is_space (rev (dropWhile is_space s)))"

text \<open>The character classes \<^verbatim>\<open>[0-9]\<close> and \<^verbatim>\<open>[0-9+]\<close> of the regular expressions.\<close>

definition is_digit :: "char \<Rightarrow> bool" where
  "is_digit c = (c \<in> set ''0123456789'')"

definition is_digit_or_plus :: "char \<Rightarrow> bool" where
  "is_digit_or_plus c = (is_digit c \<or> c = CHR ''+'')"

text \<open>
  \<^verbatim>\<open>a || d\<close> and \<^verbatim>\<open>!s\<close> on a possibly missing string.
\<close>

definition str_or :: "string option \<Rightarrow> string \<Rightarrow> string" where
  "str_or a d = (case a of None \<Rightarrow> d | Some v \<Rightarrow> if v = [] then d else v)"

definition falsy :: "string option \<Rightarrow> bool" where
  "falsy s = (case s of None \<Rightarrow> True | Some v \<Rightarrow> v = [])"

subsection \<open>JavaScript numbers\<close>

text \<open>
  A number is a double: a finite one is given by its exact value, a rational. The two
  zeros are not told apart; the source never divides by a zero nor prints one's sign.
\<close>

datatype number = Num rat | Infinity | NegInfinity | NaN

text \<open>The binary exponent \<open>\<lfloor>log\<^sub>2 x\<rfloor>\<close> of a positive rational.\<close>

definition ilog2 :: "rat \<Rightarrow> int" where
  "ilog2 x = (let (p, q) = quotient_of x; d = bitlen p - bitlen q
              in if 2 powi d \<le> x then d else d - 1)"

text \<open>The nearest integer, a tie going to the even one.\<close>

definition rne :: "rat \<Rightarrow> int" where
  "rne z = (let f = \<lfloor>z\<rfloor>; r = z - of_int f
            in if r < 1 / 2 then f else if 1 / 2 < r then f + 1
               else if even f then f else f + 1)"

text \<open>
  The double that an exact result \<open>x\<close> is rounded to (round to nearest, ties to even):
  a multiple of \<open>2^(c - 52)\<close>, where \<open>c\<close> is the exponent of \<open>x\<close>, not below the least
  normal exponent \<open>-1022\<close>; an infinity when the rounded magnitude reaches \<open>2^1024\<close>.
\<close>

definition fl :: "rat \<Rightarrow> number" where
  "fl x = (if x = 0 then Num 0
           else
             let c = max (ilog2 \<bar>x\<bar>) (- 1022);
                 u = 2 powi (c - 52);
                 y = of_int (rne (x / u)) * u
             in if 2 powi 1024 \<le> y then Infinity
                else if y \<le> - (2 powi 1024) then NegInfinity
                else Num y)"

text \<open>\<^verbatim>\<open>a + b\<close>, \<^verbatim>\<open>a * b\<close> and \<^verbatim>\<open>a / b\<close>.\<close>

fun fadd :: "number \<Rightarrow> number \<Rightarrow> number" where
  "fadd (Num x) (Num y) = fl (x + y)"
| "fadd NaN b = NaN"
| "fadd a NaN = NaN"
| "fadd Infinity NegInfinity = NaN"
| "fadd NegInfinity Infinity = NaN"
| "fadd Infinity b = Infinity"
| "fadd a Infinity = Infinity"
| "fadd NegInfinity b = NegInfinity"
| "fadd a NegInfinity = NegInfinity"

fun fmul :: "number \<Rightarrow> number \<Rightarrow> number" where
  "fmul (Num x) (Num y) = fl (x * y)"
| "fmul NaN b = NaN"
| "fmul a NaN = NaN"
| "fmul Infinity (Num y) = (if y = 0 then NaN else if 0 < y then Infinity else NegInfinity)"
| "fmul NegInfinity (Num y) = (if y = 0 then NaN else if 0 < y then NegInfinity else Infinity)"
| "fmul (Num x) Infinity = (if x = 0 then NaN else if 0 < x then Infinity else NegInfinity)"
| "fmul (Num x) NegInfinity = (if x = 0 then NaN else if 0 < x then NegInfinity else Infinity)"
| "fmul Infinity Infinity = Infinity"
| "fmul NegInfinity NegInfinity = Infinity"
| "fmul Infinity NegInfinity = NegInfinity"
| "fmul NegInfinity Infinity = NegInfinity"

fun fdiv :: "number \<Rightarrow> number \<Rightarrow> number" where
  "fdiv (Num x) (Num y) =
     (if y = 0 then (if x = 0 then NaN else if 0 < x then Infinity else NegInfinity)
      else fl (x / y))"
| "fdiv NaN b = NaN"
| "fdiv a NaN = NaN"
| "fdiv (Num x) b = Num 0"
| "fdiv Infinity (Num y) = (if 0 \<le> y then Infinity else NegInfinity)"
| "fdiv NegInfinity (Num y) = (if 0 \<le> y then NegInfinity else Infinity)"
| "fdiv a b = NaN"

text \<open>
  \<^verbatim>\<open>Math.round\<close>, the nearest integer with a tie going towards plus infinity, and
  \<^verbatim>\<open>Math.floor\<close>. Both are exact.
\<close>

fun Math_round :: "number \<Rightarrow> number" where
  "Math_round (Num x) = Num (of_int \<lfloor>x + 1 / 2\<rfloor>)"
| "Math_round a = a"

fun Math_floor :: "number \<Rightarrow> number" where
  "Math_floor (Num x) = Num (of_int \<lfloor>x\<rfloor>)"
| "Math_floor a = a"

text \<open>Truthiness of a number, and \<^verbatim>\<open>a || d\<close> on a possibly missing number.\<close>

fun truthy :: "number \<Rightarrow> bool" where
  "truthy (Num x) = (x \<noteq> 0)"
| "truthy NaN = False"
| "truthy a = True"

definition num_or :: "number option \<Rightarrow> number \<Rightarrow> number" where
  "num_or a d = (case a of None \<Rightarrow> d | Some n \<Rightarrow> if truthy n then n else d)"

text \<open>
  \<^verbatim>\<open>n.toString()\<close> for a number that holds an integer below \<open>10^21\<close> in magnitude, or
  is not finite.
\<close>

fun String_num :: "number \<Rightarrow> string" where
  "String_num (Num x) = String_int \<lfloor>x\<rfloor>"
| "String_num Infinity = ''Infinity''"
| "String_num NegInfinity = ''-Infinity''"
| "String_num NaN = ''NaN''"

text \<open>
  The vocabulary of the statements below: a field that holds an integer, and the
  integer it holds.
\<close>

definition holds_int :: "number option \<Rightarrow> bool" where
  "holds_int a = (case a of Some (Num x) \<Rightarrow> of_int \<lfloor>x\<rfloor> = x | _ \<Rightarrow> False)"

definition int_value :: "number option \<Rightarrow> int" where
  "int_value a = (case a of Some (Num x) \<Rightarrow> \<lfloor>x\<rfloor> | _ \<Rightarrow> 0)"

subsection \<open>Environment\<close>

text \<open>The variables of \<^verbatim>\<open>process.env\<close> the handlers read; \<open>None\<close> is an unset variable.\<close>

record env =
  DEFAULT_COUNTRY_CODE :: "string option"
  NODE_ENV :: "string option"
  DEBUG_OTPS :: "string option"

text \<open>\<^verbatim>\<open>process.env.DEFAULT_COUNTRY_CODE || '+1'\<close>.\<close>

definition country_code :: "env \<Rightarrow> string" where
  "country_code e =
     (case DEFAULT_COUNTRY_CODE e of None \<Rightarrow> ''+1''
      | Some c \<Rightarrow> if c = [] then ''+1'' else c)"

subsection \<open>Phone normalization and validation\<close>

definition normalizePhone :: "env \<Rightarrow> string option \<Rightarrow> string option" where
  "normalizePhone e raw =
     (case raw of
        None \<Rightarrow> None
      | Some r \<Rightarrow>
          if r = [] then None
          else
            let v0 = trim r;
                v1 = (if startsWith v0 ''whatsapp:''
                      then drop (length ''whatsapp:'') v0 else v0);
                v2 = filter is_digit_or_plus v1
            in Some (if \<not> startsWith v2 ''+''
                     then country_code e @ dropWhile (\<lambda>c. c = CHR ''0'') v2
                     else v2))"

definition isValidPhone :: "env \<Rightarrow> string option \<Rightarrow> bool" where
  "isValidPhone e raw =
     (case normalizePhone e raw of
        None \<Rightarrow> False
      | Some n \<Rightarrow> if n = [] then False else 8 \<le> length (filter is_digit n))"

subsection \<open>Data model\<close>

text \<open>
  A line item of a request body. Every field may be missing. An element of
  \<^verbatim>\<open>items\<close> that is \<^verbatim>\<open>null\<close>, on which \<^verbatim>\<open>it.price\<close> throws, is not modelled.
\<close>

record item =
  item_id :: "string option"
  item_name :: "string option"
  price :: "number option"
  quantity :: "number option"

text \<open>
  The \<^verbatim>\<open>items\<close> field of a body as the guard
  \<^verbatim>\<open>!items || !Array.isArray(items) || items.length === 0\<close> sees it: a falsy value
  (missing, \<^verbatim>\<open>null\<close>, \<^verbatim>\<open>0\<close>, \<^verbatim>\<open>""\<close>), a truthy value that is no array, or an array.
\<close>

datatype items_field = NoItems | NonArray | ItemArray "item list"

record order =
  order_id :: string
  tableNumber :: "int option"
  customerName :: string
  items :: "item list"
  totalAmount :: number
  status :: string
  createdAt :: int
  updatedAt :: "int option"

record bill =
  bill_id :: string
  bill_tableNumber :: "int option"
  bill_customerName :: string
  customerPhone :: "string option"
  bill_items :: "item list"
  subtotal :: number
  tax :: number
  service :: number
  total :: number
  bill_createdAt :: int

record otp_record =
  code :: string
  otp_createdAt :: int

text \<open>The in-memory stores: two arrays, and an object keyed by normalized phone.\<close>

record store =
  orders :: "order list"
  bills :: "bill list"
  otps :: "string \<rightharpoonup> otp_record"

type_synonym failure = "nat \<times> string"

text \<open>\<^verbatim>\<open>tableNumber || null\<close>, and a line's amount
  \<^verbatim>\<open>(it.price || 0) * (it.quantity || 1)\<close>.\<close>

definition or_null :: "int option \<Rightarrow> int option" where
  "or_null a = (case a of None \<Rightarrow> None | Some n \<Rightarrow> if n = 0 then None else Some n)"

definition line_amount :: "item \<Rightarrow> number" where
  "line_amount it = fmul (num_or (price it) (Num 0)) (num_or (quantity it) (Num 1))"

subsection \<open>POST /orders\<close>

text \<open>Replies with the new order's id.\<close>

definition post_orders ::
  "int \<Rightarrow> int option \<Rightarrow> string option \<Rightarrow> items_field \<Rightarrow> number option \<Rightarrow> store
     \<Rightarrow> (failure + string) \<times> store" where
  "post_orders now tableNumber' customerName' items' totalAmount' st =
     (case items' of
        NoItems \<Rightarrow> (Inl (400, ''No items in order''), st)
      | NonArray \<Rightarrow> (Inl (400, ''No items in order''), st)
      | ItemArray its \<Rightarrow>
          if length its = 0 then (Inl (400, ''No items in order''), st)
          else
            let ord = \<lparr> order_id = ''ORD-'' @ String_int now,
                        tableNumber = or_null tableNumber',
                        customerName = str_or customerName' ''Guest'',
                        items = its,
                        totalAmount =
                          num_or totalAmount'
                            (foldl (\<lambda>s it. fadd s (line_amount it)) (Num 0) its),
                        status = ''PENDING'',
                        createdAt = now,
                        updatedAt = None \<rparr>
            in (Inr (order_id ord), st\<lparr>orders := orders st @ [ord]\<rparr>))"

subsection \<open>PATCH /orders/:id\<close>

text \<open>\<^verbatim>\<open>xs.findIndex(p)\<close>, with \<open>None\<close> for \<^verbatim>\<open>-1\<close>.\<close>

fun findIndex :: "('a \<Rightarrow> bool) \<Rightarrow> 'a list \<Rightarrow> nat option" where
  "findIndex p [] = None"
| "findIndex p (x # xs) = (if p x then Some 0 else map_option Suc (findIndex p xs))"

text \<open>
  The body's \<^verbatim>\<open>status\<close> is a string or missing. Replies with the order as it is after
  the call, or 404 when no stored order has the id.
\<close>

definition patch_order ::
  "int \<Rightarrow> string option \<Rightarrow> string \<Rightarrow> store \<Rightarrow> (failure + order) \<times> store" where
  "patch_order now status' oid st =
     (case findIndex (\<lambda>x. order_id x = oid) (orders st) of
        None \<Rightarrow> (Inl (404, ''Order not found''), st)
      | Some idx \<Rightarrow>
          let os = (case status' of
                      None \<Rightarrow> orders st
                    | Some s \<Rightarrow>
                        if s = [] then orders st
                        else (orders st)[idx := (orders st ! idx)
                                           \<lparr>status := s, updatedAt := Some now\<rparr>])
          in (Inr (os ! idx), st\<lparr>orders := os\<rparr>))"

subsection \<open>POST /otp and POST /otp/verify\<close>

text \<open>
  A value used as a property key or passed to \<^verbatim>\<open>String\<close>: \<^verbatim>\<open>null\<close> and
  \<^verbatim>\<open>undefined\<close> become their names.
\<close>

definition key_of :: "string option \<Rightarrow> string" where
  "key_of k = (case k of None \<Rightarrow> ''null'' | Some v \<Rightarrow> v)"

definition String_of :: "string option \<Rightarrow> string" where
  "String_of c = (case c of None \<Rightarrow> ''undefined'' | Some v \<Rightarrow> v)"

text \<open>
  \<^verbatim>\<open>Math.floor(1000 + Math.random() * 9000).toString()\<close>, where \<open>r\<close> is the value of
  \<^verbatim>\<open>Math.random()\<close>, a double with \<open>0 \<le> r < 1\<close>.
\<close>

definition otp_code :: "rat \<Rightarrow> string" where
  "otp_code r = String_num (Math_floor (fadd (Num 1000) (fmul (Num r) (Num 9000))))"

text \<open>
  Replies with the normalized phone, and with the code unless \<^verbatim>\<open>NODE_ENV\<close> is
  \<^verbatim>\<open>production\<close> and \<^verbatim>\<open>DEBUG_OTPS\<close> is not \<^verbatim>\<open>true\<close>. The WhatsApp delivery is
  fire-and-forget and touches neither the reply nor the store.
\<close>

definition post_otp ::
  "env \<Rightarrow> rat \<Rightarrow> int \<Rightarrow> string option \<Rightarrow> store
     \<Rightarrow> (failure + string option \<times> string) \<times> store" where
  "post_otp e r now phone st =
     (if falsy phone then (Inl (400, ''Phone required''), st)
      else if \<not> isValidPhone e phone then (Inl (400, ''Invalid phone format''), st)
      else
        let normPhone = key_of (normalizePhone e phone);
            c = otp_code r;
            st' = st\<lparr>otps := (otps st)(normPhone \<mapsto> \<lparr>code = c, otp_createdAt = now\<rparr>)\<rparr>
        in if NODE_ENV e \<noteq> Some ''production'' \<or> DEBUG_OTPS e = Some ''true''
           then (Inr (Some c, normPhone), st')
           else (Inr (None, normPhone), st'))"

definition post_otp_verify ::
  "env \<Rightarrow> string option \<Rightarrow> string option \<Rightarrow> store \<Rightarrow> (failure + string) \<times> store" where
  "post_otp_verify e phone code' st =
     (if falsy phone \<or> falsy code' then (Inl (400, ''Phone and code required''), st)
      else if \<not> isValidPhone e phone then (Inl (400, ''Invalid phone format''), st)
      else
        let normPhone = key_of (normalizePhone e phone)
        in case otps st normPhone of
             None \<Rightarrow> (Inl (400, ''No OTP requested''), st)
           | Some record \<Rightarrow>
               if code record \<noteq> String_of code' then (Inl (400, ''Invalid code''), st)
               else (Inr normPhone, st\<lparr>otps := (otps st)(normPhone := None)\<rparr>))"

subsection \<open>POST /bills\<close>

text \<open>
  \<^verbatim>\<open>normalizedCustomerPhone || null\<close>. In the handler the literals \<^verbatim>\<open>0.05\<close> and
  \<^verbatim>\<open>0.02\<close> denote the doubles nearest to \<open>5/100\<close> and \<open>2/100\<close>.
\<close>

definition str_or_null :: "string option \<Rightarrow> string option" where
  "str_or_null a = (if falsy a then None else a)"

definition post_bills ::
  "env \<Rightarrow> int \<Rightarrow> int option \<Rightarrow> string option \<Rightarrow> string option \<Rightarrow> items_field \<Rightarrow> store
     \<Rightarrow> (failure + bill) \<times> store" where
  "post_bills e now tableNumber' customerName' customerPhone' items' st =
     (case items' of
        NoItems \<Rightarrow> (Inl (400, ''No items to bill''), st)
      | NonArray \<Rightarrow> (Inl (400, ''No items to bill''), st)
      | ItemArray its \<Rightarrow>
          if length its = 0 then (Inl (400, ''No items to bill''), st)
          else if \<not> falsy customerPhone' \<and> \<not> isValidPhone e customerPhone'
          then (Inl (400, ''invalid phone format''), st)
          else
            let normalizedCustomerPhone =
                  (if \<not> falsy customerPhone' then normalizePhone e customerPhone' else None);
                subtotal' = foldl (\<lambda>s it. fadd s (line_amount it)) (Num 0) its;
                taxRate = fl (5 / 100);
                serviceRate = fl (2 / 100);
                tax' = Math_round (fmul subtotal' taxRate);
                service' = Math_round (fmul subtotal' serviceRate);
                total' = fadd (fadd subtotal' tax') service';
                b = \<lparr> bill_id = ''BILL-'' @ String_int now,
                      bill_tableNumber = or_null tableNumber',
                      bill_customerName = str_or customerName' ''Guest'',
                      customerPhone = str_or_null normalizedCustomerPhone,
                      bill_items = its,
                      subtotal = subtotal',
                      tax = tax',
                      service = service',
                      total = total',
                      bill_createdAt = now \<rparr>
            in (Inr b, st\<lparr>bills := bills st @ [b]\<rparr>))"

subsection \<open>GET /reports/daily\<close>

text \<open>
  \<^verbatim>\<open>new Date(s).getTime()\<close> is a parameter \<open>getTime\<close>: the host parses \<open>s\<close> in its
  own time zone, and \<open>None\<close> is \<^verbatim>\<open>NaN\<close>, the time of a string that is no date. A
  comparison with \<^verbatim>\<open>NaN\<close> is false and arithmetic on it gives \<^verbatim>\<open>NaN\<close>.
\<close>

definition ge_time :: "int \<Rightarrow> int option \<Rightarrow> bool" where
  "ge_time a b = (case b of None \<Rightarrow> False | Some t \<Rightarrow> t \<le> a)"

definition le_time :: "int \<Rightarrow> int option \<Rightarrow> bool" where
  "le_time a b = (case b of None \<Rightarrow> False | Some t \<Rightarrow> a \<le> t)"

text \<open>\<^verbatim>\<open>String(h).padStart(2, "0")\<close>.\<close>

definition padStart2 :: "string \<Rightarrow> string" where
  "padStart2 s = replicate (2 - length s) (CHR ''0'') @ s"

record hour_entry =
  hour :: string
  hour_orders :: nat
  revenue :: number

record report =
  date :: string
  totalOrders :: nat
  totalRevenue :: number
  averageOrderValue :: number
  totalCustomers :: nat
  hourlyBreakdown :: "hour_entry list"

text \<open>
  \<open>date'\<close> is the query parameter and \<open>today\<close> the value of
  \<^verbatim>\<open>new Date().toISOString().split("T")[0]\<close>. The reply's \<^verbatim>\<open>topItems\<close> is left out:
  it is computed from \<open>dayBills\<close> alone and nothing else in the reply reads it.
\<close>

definition daily_report ::
  "(string \<Rightarrow> int option) \<Rightarrow> string \<Rightarrow> string option \<Rightarrow> store \<Rightarrow> report" where
  "daily_report getTime today date' st =
     (let date0 = str_or date' today;
          start = getTime (date0 @ ''T00:00:00'');
          end' = getTime (date0 @ ''T23:59:59'');
          dayBills = filter (\<lambda>b. ge_time (bill_createdAt b) start
                                 \<and> le_time (bill_createdAt b) end') (bills st);
          totalRevenue' =
            foldl (\<lambda>s b. fadd s (num_or (Some (total b)) (Num 0))) (Num 0) dayBills;
          totalOrders' = length dayBills;
          customers = remdups (map bill_customerName dayBills);
          hourly =
            map (\<lambda>h.
                   let hourStart = map_option (\<lambda>t. t + int h * 3600 * 1000) start;
                       hourEnd = map_option (\<lambda>t. t + 3600 * 1000 - 1) hourStart;
                       hb = filter (\<lambda>b. ge_time (bill_createdAt b) hourStart
                                        \<and> le_time (bill_createdAt b) hourEnd) dayBills
                   in \<lparr> hour = padStart2 (String_int (int h)) @ '':00'',
                        hour_orders = length hb,
                        revenue =
                          foldl (\<lambda>s x. fadd s (num_or (Some (total x)) (Num 0))) (Num 0)
                            hb \<rparr>)
                [0..<24]
      in \<lparr> date = date0,
           totalOrders = totalOrders',
           totalRevenue = totalRevenue',
           averageOrderValue =
             (if totalOrders' \<noteq> 0 then fdiv totalRevenue' (Num (of_nat totalOrders'))
              else Num 0),
           totalCustomers = length customers,
           hourlyBreakdown = hourly \<rparr>)"

subsection \<open>Example inputs\<close>

text \<open>The environment with no variable set, and the stores of a freshly started process.\<close>

definition env_default :: env where
  "env_default = \<lparr>DEFAULT_COUNTRY_CODE = None, NODE_ENV = None, DEBUG_OTPS = None\<rparr>"

definition empty_store :: store where
  "empty_store = \<lparr>orders = [], bills = [], otps = Map.empty\<rparr>"

text \<open>
  A line item, and the store after an order for it has been placed at time 5 and then
  set to \<open>COMPLETED\<close> at time 7.
\<close>

definition one_item :: item where
  "one_item = \<lparr>item_id = None, item_name = None, price = Some (Num 10),
                quantity = Some (Num 1)\<rparr>"

definition completed_store :: store where
  "completed_store =
     snd (patch_order 7 (Some ''COMPLETED'') ''ORD-5''
       (snd (post_orders 5 None None (ItemArray [one_item]) None empty_store)))"

text \<open>An item with an integer price and an integer quantity, and the store after a bill
  for one item has been made at a given time.\<close>

definition priced :: "int \<Rightarrow> int \<Rightarrow> item" where
  "priced p q = \<lparr>item_id = None, item_name = None, price = Some (Num (of_int p)),
                 quantity = Some (Num (of_int q))\<rparr>"

definition bill_for :: "int \<Rightarrow> item \<Rightarrow> store \<Rightarrow> store" where
  "bill_for now it st = snd (post_bills env_default now None None None (ItemArray [it]) st)"

text \<open>
  The items of the two bills of server/generate-bills.js, and the store after a bill for
  each has been made by \<open>POST /bills\<close> at the times of creation given there, which are
  00:24:08 and 00:30:01 of 2025-11-15 in New York.
\<close>

definition five_chais :: item where
  "five_chais = \<lparr>item_id = Some ''tea-1'', item_name = Some ''Masala Chai'',
                  price = Some (Num 30), quantity = Some (Num 5)\<rparr>"

definition two_samosas :: item where
  "two_samosas = \<lparr>item_id = Some ''snack-1'', item_name = Some ''Samosa'',
                   price = Some (Num 20), quantity = Some (Num 2)\<rparr>"

definition two_bill_store :: store where
  "two_bill_store =
     bill_for 1763184601755 two_samosas (bill_for 1763184248360 five_chais empty_store)"

text \<open>
  \<^verbatim>\<open>new Date(s).getTime()\<close> on a host whose time zone is America/New_York, for the
  four strings used below. On 2025-11-02 the clocks are set back one hour at 02:00, so
  that day lasts 25 hours: midnight is 04:00:00 UTC and 23:59:59 is 04:59:59 UTC of the
  next day. On 2025-11-15 the offset is five hours all day.
\<close>

definition new_york_time :: "string \<Rightarrow> int option" where
  "new_york_time s =
     (if s = ''2025-11-02T00:00:00'' then Some 1762056000000
      else if s = ''2025-11-02T23:59:59'' then Some 1762145999000
      else if s = ''2025-11-15T00:00:00'' then Some 1763182800000
      else if s = ''2025-11-15T23:59:59'' then Some 1763269199000
      else None)"

text \<open>
  Four bills of 2025-11-15 in New York: one for an item priced 8500000000000000 at
  00:24:08, and three for an item priced 1 shortly after 01:10. Then three bills of that
  day at 00:24:08, 00:30:01 and 00:40:00, for \<open>two_samosas\<close> and twice \<open>one_item\<close>.
\<close>

definition large_bill_store :: store where
  "large_bill_store =
     bill_for 1763187000002 (priced 1 1)
       (bill_for 1763187000001 (priced 1 1)
         (bill_for 1763187000000 (priced 1 1)
           (bill_for 1763184248360 (priced 8500000000000000 1) empty_store)))"

definition three_bill_store :: store where
  "three_bill_store =
     bill_for 1763185200000 one_item
       (bill_for 1763184601755 one_item
         (bill_for 1763184248360 two_samosas empty_store))"

text \<open>A store whose one bill is made at 23:30 New York time on 2025-11-02.\<close>

definition late_bill_store :: store where
  "late_bill_store = bill_for 1762144200000 one_item empty_store"

section \<open>Properties\<close>

subsection \<open>Auxiliary facts\<close>


lemma dec_numeral [simp]:
  "dec (numeral k) = (if (numeral k :: nat) < 10 then [''0123456789'' ! numeral k]
            else dec (numeral k div 10) @ [''0123456789'' ! (numeral k mod 10)])"
  by (rule dec.simps)

lemma dec_0 [simp]: "dec 0 = ''0''"
  by (subst dec.simps) simp

lemma dec_1 [simp]: "dec (Suc 0) = ''1''"
  by (subst dec.simps) simp




lemma findIndex_Some:
  "findIndex p xs = Some i \<Longrightarrow> i < length xs \<and> p (xs ! i)"
  by (induction xs arbitrary: i) (auto split: if_splits)

lemma filter_dropWhile_disjoint:
  "(\<And>x. p x \<Longrightarrow> \<not> q x) \<Longrightarrow> filter p (dropWhile q xs) = filter p xs"
  by (induction xs) auto

lemma digit_or_plus_not_space: "is_digit_or_plus c \<Longrightarrow> \<not> is_space c"
  by (auto simp: is_digit_or_plus_def is_digit_def is_space_def)

lemma filter_trim: "filter is_digit_or_plus (trim s) = filter is_digit_or_plus s"
proof -
  have "filter is_digit_or_plus (trim s)
        = rev (filter is_digit_or_plus (dropWhile is_space (rev (dropWhile is_space s))))"
    by (simp add: trim_def rev_filter)
  also have "\<dots> = rev (filter is_digit_or_plus (rev (dropWhile is_space s)))"
    by (simp add: filter_dropWhile_disjoint digit_or_plus_not_space)
  also have "\<dots> = filter is_digit_or_plus (dropWhile is_space s)"
    by (simp add: rev_filter)
  also have "\<dots> = filter is_digit_or_plus s"
    by (simp add: filter_dropWhile_disjoint digit_or_plus_not_space)
  finally show ?thesis .
qed

lemma filter_drop_whatsapp:
  assumes "startsWith v ''whatsapp:''"
  shows "filter is_digit_or_plus (drop (length ''whatsapp:'') v) = filter is_digit_or_plus v"
proof -
  have "v = ''whatsapp:'' @ drop (length ''whatsapp:'') v"
    using assms append_take_drop_id [of "length ''whatsapp:''" v]
    by (simp add: startsWith_def)
  then have "filter is_digit_or_plus v
      = filter is_digit_or_plus (''whatsapp:'' @ drop (length ''whatsapp:'') v)"
    by simp
  also have "\<dots> = filter is_digit_or_plus (drop (length ''whatsapp:'') v)"
    unfolding filter_append by (simp add: is_digit_or_plus_def is_digit_def)
  finally show ?thesis by simp
qed

lemma filter_strip_prefix:
  "filter is_digit_or_plus
     (if startsWith (trim raw) ''whatsapp:''
      then drop (length ''whatsapp:'') (trim raw) else trim raw)
   = filter is_digit_or_plus raw"
proof (cases "startsWith (trim raw) ''whatsapp:''")
  case True
  then show ?thesis
    by (simp only: if_True filter_drop_whatsapp filter_trim)
next
  case False
  then show ?thesis
    by (simp only: if_False filter_trim)
qed

text \<open>
  Trimming and the removal of the \<^verbatim>\<open>whatsapp:\<close> prefix only take away characters
  that the regular expression removes anyway: the result is determined by the digits
  and plus signs of the input.
\<close>

lemma normalizePhone_Some:
  assumes "raw \<noteq> []"
  shows "normalizePhone e (Some raw) =
     Some (if startsWith (filter is_digit_or_plus raw) ''+''
           then filter is_digit_or_plus raw
           else country_code e
                @ dropWhile (\<lambda>c. c = CHR ''0'') (filter is_digit_or_plus raw))"
  unfolding normalizePhone_def Let_def filter_strip_prefix
  using assms by simp

subsection \<open>Rounding to a double\<close>

text \<open>
  What the statements below need of \<open>fl\<close>: the exponent it computes is the binary
  exponent, a value with a 53-bit significand is left as it is, a rounded value stays
  between any two multiples of the unit in the last place that enclose the exact one,
  and a concrete rounding can be checked from its exponent and significand.
\<close>

lemma powi_nat: "0 \<le> k \<Longrightarrow> (2::rat) powi k = 2 ^ nat k"
  by (simp add: power_int_def)

lemma powi_pos [simp]: "0 < (2::rat) powi k"
  by simp

lemma powi_add: "(2::rat) powi (m + n) = 2 powi m * 2 powi n"
  by (rule power_int_add) simp

lemma powi_diff: "(2::rat) powi (m - n) = 2 powi m / 2 powi n"
  by (rule power_int_diff) simp

lemma powi_mono: "m \<le> n \<Longrightarrow> (2::rat) powi m \<le> 2 powi n"
  by (rule power_int_increasing) simp_all

lemma powi_strict_mono: "m < n \<Longrightarrow> (2::rat) powi m < 2 powi n"
  by (rule power_int_strict_increasing) simp_all

lemma powi_le_iff: "(2::rat) powi m \<le> 2 powi n \<longleftrightarrow> m \<le> n"
  using powi_mono [of m n] powi_strict_mono [of n m] by (auto simp: not_le [symmetric])

lemma powi_less_iff: "(2::rat) powi m < 2 powi n \<longleftrightarrow> m < n"
  using powi_mono [of n m] powi_strict_mono [of m n] by (auto simp: not_less [symmetric])

lemma bitlen_bounds_rat:
  assumes "0 < p"
  shows "(2::rat) powi (bitlen p - 1) \<le> of_int p" and "of_int p < (2::rat) powi (bitlen p)"
proof -
  from bitlen_bounds [OF assms]
  have lo: "2 ^ nat (bitlen p - 1) \<le> p" and hi: "p < 2 ^ nat (bitlen p)" by simp_all
  have b1: "1 \<le> bitlen p" using assms by (auto simp: bitlen_alt_def)
  have "(2::rat) powi (bitlen p - 1) = of_int (2 ^ nat (bitlen p - 1))"
    using b1 by (simp add: powi_nat)
  also have "\<dots> \<le> of_int p" using lo by (simp only: of_int_le_iff)
  finally show "(2::rat) powi (bitlen p - 1) \<le> of_int p" .
  have "(of_int p :: rat) < of_int (2 ^ nat (bitlen p))" using hi by (simp only: of_int_less_iff)
  also have "\<dots> = 2 powi (bitlen p)" using b1 by (simp add: powi_nat)
  finally show "of_int p < (2::rat) powi (bitlen p)" .
qed

lemma ilog2_bounds:
  assumes "0 < x"
  shows "2 powi (ilog2 x) \<le> x" and "x < 2 powi (ilog2 x + 1)"
proof -
  obtain p q where pq: "quotient_of x = (p, q)" by (cases "quotient_of x")
  then have q: "0 < q" and x: "x = of_int p / of_int q"
    by (simp_all add: quotient_of_denom_pos quotient_of_div)
  from assms x q have p: "0 < p" by (simp add: zero_less_divide_iff)
  define d where "d = bitlen p - bitlen q"
  have e: "ilog2 x = (if 2 powi d \<le> x then d else d - 1)"
    by (simp add: ilog2_def pq d_def Let_def)
  have qr: "(0::rat) < of_int q" using q by simp
  have "x < (2::rat) powi (bitlen p) / 2 powi (bitlen q - 1)"
  proof -
    have "x < (2::rat) powi (bitlen p) / of_int q"
      unfolding x using bitlen_bounds_rat(2) [OF p] qr by (simp add: divide_strict_right_mono)
    also have "\<dots> \<le> (2::rat) powi (bitlen p) / 2 powi (bitlen q - 1)"
      using bitlen_bounds_rat(1) [OF q] by (simp add: frac_le)
    finally show ?thesis .
  qed
  then have up: "x < 2 powi (d + 1)"
    by (simp add: d_def powi_diff [symmetric] algebra_simps)
  have "(2::rat) powi (bitlen p - 1) / 2 powi (bitlen q) \<le> x"
  proof -
    have "(2::rat) powi (bitlen p - 1) / 2 powi (bitlen q)
          \<le> (2::rat) powi (bitlen p - 1) / of_int q"
      using bitlen_bounds_rat(2) [OF q] qr by (simp add: frac_le)
    also have "\<dots> \<le> x"
      unfolding x using bitlen_bounds_rat(1) [OF p] qr by (simp add: divide_right_mono)
    finally show ?thesis .
  qed
  then have lo: "2 powi (d - 1) \<le> x"
    by (simp add: d_def powi_diff [symmetric] algebra_simps)
  show "2 powi (ilog2 x) \<le> x" using lo by (simp add: e)
  show "x < 2 powi (ilog2 x + 1)" using up by (auto simp: e not_le)
qed

lemma ilog2_unique:
  assumes "2 powi e \<le> x" and "x < 2 powi (e + 1)"
  shows "ilog2 x = e"
proof -
  have x: "0 < x" using assms(1) powi_pos [of e] by linarith
  from ilog2_bounds [OF x] assms
  have "(2::rat) powi (ilog2 x) < 2 powi (e + 1)" and "(2::rat) powi e < 2 powi (ilog2 x + 1)"
    by linarith+
  then show ?thesis by (simp add: powi_less_iff)
qed

lemma rne_of_int [simp]: "rne (of_int n) = n"
  by (simp add: rne_def)

lemma rne_ge: "of_int a \<le> z \<Longrightarrow> a \<le> rne z"
  by (auto simp: rne_def Let_def le_floor_iff; linarith?)

lemma rne_le: "z \<le> of_int b \<Longrightarrow> rne z \<le> b"
proof -
  assume b: "z \<le> of_int b"
  have f: "\<lfloor>z\<rfloor> \<le> b" using b by (simp add: floor_le_iff; linarith?)
  show ?thesis
  proof (cases "z = of_int \<lfloor>z\<rfloor>")
    case True
    then have "rne z = \<lfloor>z\<rfloor>" by (simp add: rne_def)
    with f show ?thesis by simp
  next
    case False
    then have "of_int \<lfloor>z\<rfloor> < z" using of_int_floor_le [of z] by linarith
    with b have "\<lfloor>z\<rfloor> < b" using of_int_less_iff [where ?'a = rat] by (metis less_le_trans)
    moreover have "rne z \<le> \<lfloor>z\<rfloor> + 1" by (simp add: rne_def Let_def)
    ultimately show ?thesis by linarith
  qed
qed

lemma rne_near: "\<bar>z - of_int m\<bar> < 1 / 2 \<Longrightarrow> rne z = m"
proof -
  assume a: "\<bar>z - of_int m\<bar> < 1 / 2"
  show ?thesis
  proof (cases "of_int m \<le> z")
    case True
    with a have "\<lfloor>z\<rfloor> = m" by (simp add: floor_eq_iff; linarith?)
    with a True show ?thesis by (simp add: rne_def)
  next
    case False
    with a have "\<lfloor>z\<rfloor> = m - 1" by (simp add: floor_eq_iff; linarith?)
    with a False show ?thesis by (simp add: rne_def; linarith?)
  qed
qed

lemma rne_tie_even: "z = of_int m + 1 / 2 \<Longrightarrow> even m \<Longrightarrow> rne z = m"
proof -
  assume a: "z = of_int m + 1 / 2" "even m"
  then have "\<lfloor>z\<rfloor> = m" by (simp add: floor_eq_iff)
  with a show ?thesis by (simp add: rne_def)
qed

lemma fl_nonzero:
  assumes "x \<noteq> 0"
  shows "fl x =
    (let u = 2 powi (max (ilog2 \<bar>x\<bar>) (- 1022) - 52); y = of_int (rne (x / u)) * u
     in if 2 powi 1024 \<le> y then Infinity
        else if y \<le> - (2 powi 1024) then NegInfinity else Num y)"
  using assms by (simp add: fl_def Let_def)

lemma fl_exact:
  assumes x: "x = of_int m * 2 powi E" and m: "\<bar>m\<bar> < 2 ^ 53"
    and E: "- 1074 \<le> E" "E \<le> 971"
  shows "fl x = Num x"
proof (cases "m = 0")
  case True
  then show ?thesis by (simp add: x fl_def)
next
  case False
  then have x0: "x \<noteq> 0" by (simp add: x)
  then have ax: "0 < \<bar>x\<bar>" by simp
  have axm: "\<bar>x\<bar> = of_int \<bar>m\<bar> * 2 powi E"
    by (simp add: x abs_mult)
  have mr: "(of_int \<bar>m\<bar> :: rat) < 2 powi 53"
  proof -
    have "(of_int \<bar>m\<bar> :: rat) < of_int (2 ^ 53)" using m by (simp only: of_int_less_iff)
    then show ?thesis by simp
  qed
  have hi: "\<bar>x\<bar> < 2 powi (E + 53)"
    unfolding axm powi_add using mr by (simp add: mult.commute)
  define c where "c = max (ilog2 \<bar>x\<bar>) (- 1022)"
  have c: "c - 52 \<le> E"
  proof (cases "ilog2 \<bar>x\<bar> \<le> - 1022")
    case True
    then show ?thesis using E by (simp add: c_def max_def)
  next
    case False
    from ilog2_bounds(1) [OF ax] hi have "(2::rat) powi (ilog2 \<bar>x\<bar>) < 2 powi (E + 53)"
      by linarith
    then have "ilog2 \<bar>x\<bar> < E + 53" by (simp add: powi_less_iff)
    with False show ?thesis by (simp add: c_def max_def)
  qed
  define k where "k = nat (E - (c - 52))"
  have k: "E = (c - 52) + int k" using c by (simp add: k_def)
  have q: "x / 2 powi (c - 52) = of_int (m * 2 ^ k)"
    by (simp add: x k powi_add)
  have y: "of_int (rne (x / 2 powi (c - 52))) * 2 powi (c - 52) = x"
    unfolding q rne_of_int by (simp add: x k powi_add)
  have "\<bar>x\<bar> < 2 powi 1024"
  proof -
    have "(2::rat) powi (E + 53) \<le> 2 powi 1024" using E by (intro powi_mono) simp
    with hi show ?thesis by linarith
  qed
  then have "\<not> 2 powi 1024 \<le> x" and "\<not> x \<le> - (2 powi 1024)" by linarith+
  then show ?thesis
    using y by (simp add: fl_nonzero [OF x0] Let_def c_def [symmetric])
qed

lemma fl_int:
  assumes "\<bar>n\<bar> \<le> 2 ^ 53"
  shows "fl (of_int n) = Num (of_int n)"
proof (cases "\<bar>n\<bar> < 2 ^ 53")
  case True
  show ?thesis by (rule fl_exact [of _ n 0]) (use True in simp_all)
next
  case False
  with assms have "n = 2 ^ 53 \<or> n = - (2 ^ 53)" by linarith
  then show ?thesis
  proof
    assume n: "n = 2 ^ 53"
    show ?thesis by (rule fl_exact [of _ 1 53]) (simp_all add: n)
  next
    assume n: "n = - (2 ^ 53)"
    show ?thesis by (rule fl_exact [of _ "- 1" 53]) (simp_all add: n)
  qed
qed

lemma fl_eval:
  assumes lo: "2 powi e \<le> \<bar>x\<bar>" and hi: "\<bar>x\<bar> < 2 powi (e + 1)"
    and e: "- 1022 \<le> e"
    and m: "rne (x / 2 powi (e - 52)) = m"
    and y: "\<bar>of_int m * (2::rat) powi (e - 52)\<bar> < 2 powi 1024"
  shows "fl x = Num (of_int m * 2 powi (e - 52))"
proof -
  have "0 < \<bar>x\<bar>" using lo powi_pos [of e] by linarith
  then have x0: "x \<noteq> 0" by simp
  have "ilog2 \<bar>x\<bar> = e" using lo hi by (rule ilog2_unique)
  then have c: "max (ilog2 \<bar>x\<bar>) (- 1022) = e" using e by simp
  from y have "\<not> 2 powi 1024 \<le> of_int m * (2::rat) powi (e - 52)"
    and "\<not> of_int m * (2::rat) powi (e - 52) \<le> - (2 powi 1024)" by linarith+
  then show ?thesis
    by (simp add: fl_nonzero [OF x0] Let_def c m)
qed

lemma fl_sandwich:
  assumes x: "0 < x" "x < 2 powi n" and n: "- 1021 \<le> n"
    and a: "a = of_int i * 2 powi (n - 53)" and b: "b = of_int j * 2 powi (n - 53)"
    and ax: "a \<le> x" and xb: "x \<le> b" and b1024: "b < 2 powi 1024"
  shows "\<exists>y. fl x = Num y \<and> a \<le> y \<and> y \<le> b"
proof -
  have x0: "x \<noteq> 0" using x by simp
  have absx: "\<bar>x\<bar> = x" using x by simp
  define c where "c = max (ilog2 x) (- 1022)"
  define u where "u = (2::rat) powi (c - 52)"
  have u: "0 < u" by (simp add: u_def)
  have "(2::rat) powi (ilog2 x) < 2 powi n"
    using ilog2_bounds(1) [OF x(1)] x(2) by linarith
  then have "ilog2 x < n" by (simp add: powi_less_iff)
  then have c: "c - 52 \<le> n - 53" using n by (simp add: c_def max_def)
  define k where "k = nat ((n - 53) - (c - 52))"
  have k: "n - 53 = (c - 52) + int k" using c by (simp add: k_def)
  have g: "(2::rat) powi (n - 53) = of_int (2 ^ k) * u"
    by (simp add: k powi_add u_def)
  have a': "a = of_int (i * 2 ^ k) * u" by (simp add: a g)
  have b': "b = of_int (j * 2 ^ k) * u" by (simp add: b g)
  define y where "y = of_int (rne (x / u)) * u"
  have "of_int (i * 2 ^ k) \<le> x / u"
    using ax u unfolding a' by (simp add: pos_le_divide_eq)
  then have "i * 2 ^ k \<le> rne (x / u)" by (rule rne_ge)
  then have "(of_int (i * 2 ^ k) :: rat) \<le> of_int (rne (x / u))" by (simp only: of_int_le_iff)
  then have ay: "a \<le> y" unfolding a' y_def using u by (simp only: mult_le_cancel_right_pos)
  have "x / u \<le> of_int (j * 2 ^ k)"
    using xb u unfolding b' by (simp add: pos_divide_le_eq)
  then have "rne (x / u) \<le> j * 2 ^ k" by (rule rne_le)
  then have "(of_int (rne (x / u)) :: rat) \<le> of_int (j * 2 ^ k)" by (simp only: of_int_le_iff)
  then have yb: "y \<le> b" unfolding b' y_def using u by (simp only: mult_le_cancel_right_pos)
  have "0 \<le> rne (x / u)" using x u by (intro rne_ge) simp
  then have y0: "0 \<le> y" using u by (simp add: y_def)
  have "\<not> 2 powi 1024 \<le> y" using yb b1024 by linarith
  moreover have "\<not> y \<le> - (2 powi 1024)"
    using y0 powi_pos [of 1024] by linarith
  ultimately have "fl x = Num y"
    by (simp add: fl_nonzero [OF x0] Let_def absx c_def [symmetric] u_def [symmetric]
        y_def [symmetric])
  with ay yb show ?thesis by blast
qed

lemma fadd_int:
  "\<bar>a + b\<bar> \<le> 2 ^ 53 \<Longrightarrow> fadd (Num (of_int a)) (Num (of_int b)) = Num (of_int (a + b))"
  using fl_int [of "a + b"] by simp

lemma fmul_int:
  "\<bar>a * b\<bar> \<le> 2 ^ 53 \<Longrightarrow> fmul (Num (of_int a)) (Num (of_int b)) = Num (of_int (a * b))"
  using fl_int [of "a * b"] by simp

lemma foldl_fadd_exact:
  assumes "\<forall>x\<in>set xs. g x = Num (of_int (v x)) \<and> 0 \<le> v x"
    and "0 \<le> a" and "a + sum_list (map v xs) \<le> 2 ^ 53"
  shows "foldl (\<lambda>s x. fadd s (g x)) (Num (of_int a)) xs = Num (of_int (a + sum_list (map v xs)))"
  using assms
proof (induction xs arbitrary: a)
  case Nil
  then show ?case by simp
next
  case (Cons x xs)
  have rest: "0 \<le> sum_list (map v xs)"
    using Cons.prems(1) by (intro sum_list_nonneg) auto
  have gx: "g x = Num (of_int (v x))" and vx: "0 \<le> v x" using Cons.prems(1) by simp_all
  have "\<bar>a + v x\<bar> \<le> 2 ^ 53" using Cons.prems(2,3) vx rest by simp
  then have step: "fadd (Num (of_int a)) (g x) = Num (of_int (a + v x))"
    unfolding gx by (rule fadd_int)
  have "foldl (\<lambda>s x. fadd s (g x)) (Num (of_int (a + v x))) xs
        = Num (of_int ((a + v x) + sum_list (map v xs)))"
    using Cons.prems vx by (intro Cons.IH) (simp_all add: add.assoc)
  then show ?case by (simp add: step add.assoc)
qed

lemma holds_intD: "holds_int a \<Longrightarrow> a = Some (Num (of_int (int_value a)))"
  by (auto simp: holds_int_def int_value_def split: option.splits number.splits)

lemma line_amount_int:
  assumes "holds_int (price it)" and "holds_int (quantity it)"
    and "0 \<le> int_value (price it)" and "0 < int_value (quantity it)"
    and "int_value (price it) * int_value (quantity it) \<le> 2 ^ 53"
  shows "line_amount it = Num (of_int (int_value (price it) * int_value (quantity it)))"
proof -
  define p q where "p = int_value (price it)" and "q = int_value (quantity it)"
  have pr: "price it = Some (Num (of_int p))" and qu: "quantity it = Some (Num (of_int q))"
    using assms(1,2) by (simp_all add: p_def q_def holds_intD [symmetric])
  have np: "num_or (price it) (Num 0) = Num (of_int p)"
    by (simp add: pr num_or_def)
  have "q \<noteq> 0" using assms(4) by (simp add: q_def)
  then have nq: "num_or (quantity it) (Num 1) = Num (of_int q)"
    by (simp add: qu num_or_def)
  have "\<bar>p * q\<bar> \<le> 2 ^ 53"
    using assms(3,4,5) by (simp add: p_def q_def abs_mult)
  then show ?thesis
    unfolding line_amount_def np nq p_def [symmetric] q_def [symmetric] by (rule fmul_int)
qed

lemma powi_neg_numeral: "(2::rat) powi (- numeral k) = 1 / 2 ^ numeral k"
proof -
  have "(2::rat) powi (- numeral k) = inverse (2 powi (numeral k))"
    by (rule power_int_minus)
  also have "\<dots> = 1 / 2 ^ numeral k"
    by (simp add: inverse_eq_divide)
  finally show ?thesis .
qed

lemma floor_rat_numeral:
  "\<lfloor>numeral a / numeral b :: rat\<rfloor> = numeral a div numeral b"
  using floor_divide_of_int_eq [of "numeral a" "numeral b", where ?'a = rat] by simp

lemma fl_taxRate: "fl (5 / 100) = Num (3602879701896397 / 72057594037927936)"
proof -
  have "fl (5 / 100) = Num (of_int 7205759403792794 * 2 powi (- 5 - 52))"
    by (rule fl_eval) (simp_all add: powi_neg_numeral rne_def floor_rat_numeral)
  then show ?thesis by (simp add: powi_neg_numeral)
qed

lemma fl_serviceRate: "fl (2 / 100) = Num (5764607523034235 / 288230376151711744)"
proof -
  have "fl (2 / 100) = Num (of_int 5764607523034235 * 2 powi (- 6 - 52))"
    by (rule fl_eval) (simp_all add: powi_neg_numeral rne_def floor_rat_numeral)
  then show ?thesis by (simp add: powi_neg_numeral)
qed

lemma fl_0: "fl 0 = Num 0"
  by (simp add: fl_def)

lemma Math_round_between:
  assumes "fl x = Num y" and "of_int k - 1 / 2 \<le> y" and "y < of_int k + 1 / 2"
  shows "Math_round (fl x) = Num (of_int k)"
proof -
  have "\<lfloor>y + 1 / 2\<rfloor> = k" using assms(2,3) by (simp add: floor_eq_iff)
  then show ?thesis by (simp add: assms(1))
qed

lemma tax_round:
  assumes s: "0 \<le> s" "s < 2 ^ 52"
  shows "Math_round (fmul (Num (of_int s)) (fl (5 / 100))) = Num (of_int ((s + 10) div 20))"
proof (cases "s = 0")
  case True
  show ?thesis unfolding fl_taxRate True by (simp add: fl_0 floor_eq_iff)
next
  case False
  define k where "k = (s + 10) div 20"
  define x :: rat where "x = of_int s * (3602879701896397 / 72057594037927936)"
  have k: "20 * k \<le> s + 10" "s + 10 < 20 * k + 20"
    by (simp_all add: k_def)
  have sr: "(1::rat) \<le> of_int s" "(of_int s :: rat) < 2 ^ 52"
    using s False
    by (metis add.commute less_le of_int_1 of_int_le_iff zless_imp_add1_zle zero_less_one
        add_0)
      (metis of_int_less_iff of_int_numeral of_int_power s(2))
  have kr: "20 * (of_int k :: rat) \<le> of_int s + 10" "(of_int s :: rat) + 10 \<le> 20 * of_int k + 19"
  proof -
    have "(of_int (20 * k) :: rat) \<le> of_int (s + 10)" using k(1) by (simp only: of_int_le_iff)
    then show "20 * (of_int k :: rat) \<le> of_int s + 10" by simp
    have "s + 10 \<le> 20 * k + 19" using k(2) by simp
    then have "(of_int (s + 10) :: rat) \<le> of_int (20 * k + 19)" by (simp only: of_int_le_iff)
    then show "(of_int s :: rat) + 10 \<le> 20 * of_int k + 19" by simp
  qed
  have x0: "0 < x" using sr by (simp add: x_def)
  have x48: "x < 2 powi 48" using sr by (simp add: x_def)
  have lo: "of_int (32 * k - 16) * 2 powi (48 - 53) \<le> x"
    using sr kr by (simp add: x_def powi_neg_numeral)
  have hi: "x \<le> of_int (32 * k + 15) * 2 powi (48 - 53)"
    using sr kr by (simp add: x_def powi_neg_numeral)
  have big: "of_int (32 * k + 15) * 2 powi (48 - 53) < (2::rat) powi 1024"
  proof -
    have "of_int (32 * k + 15) * 2 powi (48 - 53) < (2::rat) powi 53"
      using sr kr by (simp add: powi_neg_numeral)
    also have "\<dots> \<le> 2 powi 1024" by (rule powi_mono) simp
    finally show ?thesis .
  qed
  from fl_sandwich [OF x0 x48 _ refl refl lo hi big]
  obtain y where y: "fl x = Num y" "of_int (32 * k - 16) * 2 powi (48 - 53) \<le> y"
    "y \<le> of_int (32 * k + 15) * 2 powi (48 - 53)"
    by auto
  have "of_int k - 1 / 2 \<le> y" using y(2) by (simp add: powi_neg_numeral)
  moreover have "y < of_int k + 1 / 2" using y(3) by (simp add: powi_neg_numeral)
  ultimately have "Math_round (fl x) = Num (of_int k)"
    using y(1) by (intro Math_round_between)
  then show ?thesis unfolding fl_taxRate fmul.simps x_def k_def .
qed

lemma service_round:
  assumes s: "0 \<le> s" "s < 2 ^ 52"
  shows "Math_round (fmul (Num (of_int s)) (fl (2 / 100))) = Num (of_int ((s + 25) div 50))"
proof (cases "s = 0")
  case True
  show ?thesis unfolding fl_serviceRate True by (simp add: fl_0 floor_eq_iff)
next
  case False
  define k where "k = (s + 25) div 50"
  define x :: rat where "x = of_int s * (5764607523034235 / 288230376151711744)"
  have k: "50 * k \<le> s + 25" "s + 25 < 50 * k + 50"
    by (simp_all add: k_def)
  have sr: "(1::rat) \<le> of_int s" "(of_int s :: rat) < 2 ^ 52"
    using s False
    by (metis add.commute less_le of_int_1 of_int_le_iff zless_imp_add1_zle zero_less_one
        add_0)
      (metis of_int_less_iff of_int_numeral of_int_power s(2))
  have kr: "50 * (of_int k :: rat) \<le> of_int s + 25" "(of_int s :: rat) + 25 \<le> 50 * of_int k + 49"
  proof -
    have "(of_int (50 * k) :: rat) \<le> of_int (s + 25)" using k(1) by (simp only: of_int_le_iff)
    then show "50 * (of_int k :: rat) \<le> of_int s + 25" by simp
    have "s + 25 \<le> 50 * k + 49" using k(2) by simp
    then have "(of_int (s + 25) :: rat) \<le> of_int (50 * k + 49)" by (simp only: of_int_le_iff)
    then show "(of_int s :: rat) + 25 \<le> 50 * of_int k + 49" by simp
  qed
  have x0: "0 < x" using sr by (simp add: x_def)
  have x47: "x < 2 powi 47" using sr by (simp add: x_def)
  have lo: "of_int (64 * k - 32) * 2 powi (47 - 53) \<le> x"
    using sr kr by (simp add: x_def powi_neg_numeral)
  have hi: "x \<le> of_int (64 * k + 31) * 2 powi (47 - 53)"
    using sr kr by (simp add: x_def powi_neg_numeral)
  have big: "of_int (64 * k + 31) * 2 powi (47 - 53) < (2::rat) powi 1024"
  proof -
    have "of_int (64 * k + 31) * 2 powi (47 - 53) < (2::rat) powi 53"
      using sr kr by (simp add: powi_neg_numeral)
    also have "\<dots> \<le> 2 powi 1024" by (rule powi_mono) simp
    finally show ?thesis .
  qed
  from fl_sandwich [OF x0 x47 _ refl refl lo hi big]
  obtain y where y: "fl x = Num y" "of_int (64 * k - 32) * 2 powi (47 - 53) \<le> y"
    "y \<le> of_int (64 * k + 31) * 2 powi (47 - 53)"
    by auto
  have "of_int k - 1 / 2 \<le> y" using y(2) by (simp add: powi_neg_numeral)
  moreover have "y < of_int k + 1 / 2" using y(3) by (simp add: powi_neg_numeral)
  ultimately have "Math_round (fl x) = Num (of_int k)"
    using y(1) by (intro Math_round_between)
  then show ?thesis unfolding fl_serviceRate fmul.simps x_def k_def .
qed

lemma fl_numeral: "numeral k \<le> (2::int) ^ 53 \<Longrightarrow> fl (numeral k) = Num (numeral k)"
  using fl_int [of "numeral k"] by simp

lemma fl_1: "fl 1 = Num 1"
  using fl_int [of 1] by simp

subsection \<open>Phone normalization\<close>

text \<open>
  C6. When the input, reduced to its digits and plus signs, has no leading \<open>+\<close>, the
  result is the configured country code followed by that remainder without its leading
  zeros. With the country code \<open>+1\<close>, \<open>0455123456\<close> becomes \<open>+1455123456\<close>, and
  \<open>+14155551234\<close> is returned unchanged.
\<close>

theorem normalizePhone_default_country_code:
  "(raw \<noteq> [] \<and> \<not> startsWith (filter is_digit_or_plus raw) ''+''
      \<longrightarrow> normalizePhone e (Some raw)
          = Some (country_code e
                  @ dropWhile (\<lambda>c. c = CHR ''0'') (filter is_digit_or_plus raw)))
   \<and> (country_code e = ''+1''
      \<longrightarrow> normalizePhone e (Some ''0455123456'') = Some ''+1455123456'')
   \<and> normalizePhone e (Some ''+14155551234'') = Some ''+14155551234''"
proof (intro conjI impI)
  assume "raw \<noteq> [] \<and> \<not> startsWith (filter is_digit_or_plus raw) ''+''"
  then show "normalizePhone e (Some raw)
          = Some (country_code e
                  @ dropWhile (\<lambda>c. c = CHR ''0'') (filter is_digit_or_plus raw))"
    by (simp add: normalizePhone_Some)
next
  assume "country_code e = ''+1''"
  then show "normalizePhone e (Some ''0455123456'') = Some ''+1455123456''"
    by (simp add: normalizePhone_Some startsWith_def is_digit_or_plus_def is_digit_def)
next
  show "normalizePhone e (Some ''+14155551234'') = Some ''+14155551234''"
    by (simp add: normalizePhone_Some startsWith_def is_digit_or_plus_def is_digit_def)
qed

theorem normalizePhone_default_country_code_witness:
  "''007 42'' \<noteq> [] \<and> \<not> startsWith (filter is_digit_or_plus ''007 42'') ''+''
   \<and> country_code env_default = ''+1''
   \<and> normalizePhone env_default (Some ''007 42'') = Some ''+1742''
   \<and> normalizePhone env_default (Some ''0455123456'') = Some ''+1455123456''"
proof -
  have h: "''007 42'' \<noteq> [] \<and> \<not> startsWith (filter is_digit_or_plus ''007 42'') ''+''"
    by (simp add: startsWith_def is_digit_or_plus_def is_digit_def)
  have c: "country_code env_default = ''+1''"
    by (simp add: country_code_def env_default_def)
  have f: "dropWhile (\<lambda>c. c = CHR ''0'') (filter is_digit_or_plus ''007 42'') = ''742''"
    by (simp add: is_digit_or_plus_def is_digit_def)
  from normalizePhone_default_country_code [of "''007 42''" env_default] h c f
  show ?thesis by simp
qed

subsection \<open>Rejection of empty item lists\<close>

text \<open>
  C7. When the \<open>items\<close> of the body are missing, no array or an empty array, both
  \<open>POST /orders\<close> and \<open>POST /bills\<close> reply 400 with a message, and the stores are
  left as they were: no order and no bill is appended.
\<close>

theorem empty_items_rejected:
  "its \<in> {NoItems, NonArray, ItemArray []} \<Longrightarrow>
     post_orders now tn cn its ta st = (Inl (400, ''No items in order''), st)
     \<and> post_bills e now tn cn cp its st = (Inl (400, ''No items to bill''), st)"
  by (auto simp: post_orders_def post_bills_def)

theorem empty_items_rejected_witness:
  "ItemArray [] \<in> {NoItems, NonArray, ItemArray []}
   \<and> post_orders 5 None None (ItemArray []) None empty_store
       = (Inl (400, ''No items in order''), empty_store)
   \<and> post_bills env_default 5 None None None (ItemArray []) empty_store
       = (Inl (400, ''No items to bill''), empty_store)"
proof -
  have h: "ItemArray [] \<in> {NoItems, NonArray, ItemArray []}" by simp
  from empty_items_rejected [OF h, of 5 None None None empty_store env_default None] h
  show ?thesis by simp
qed

subsection \<open>One-time codes\<close>

lemma NODE_ENV_default: "NODE_ENV env_default = None"
  by (simp add: env_default_def)

lemma valid_4155551234: "isValidPhone env_default (Some ''4155551234'')"
  by (simp add: isValidPhone_def normalizePhone_Some startsWith_def is_digit_or_plus_def
      is_digit_def country_code_def env_default_def)

lemma norm_4155551234:
  "normalizePhone env_default (Some ''4155551234'') = Some ''+14155551234''"
  by (simp add: normalizePhone_Some startsWith_def is_digit_or_plus_def
      is_digit_def country_code_def env_default_def)

lemma otp_code_0: "otp_code 0 = ''1000''"
  by (simp add: otp_code_def fl_0 fl_numeral String_int_def)



text \<open>
  C4. After a verification for a phone and a code has succeeded, the record of that
  phone is gone from the table, and the same verification repeated at once replies 400
  \<open>No OTP requested\<close>.
\<close>

theorem otp_single_use:
  assumes "post_otp_verify e phone c st = (Inr p, st')"
  shows "otps st' p = None
         \<and> post_otp_verify e phone c st' = (Inl (400, ''No OTP requested''), st')"
  using assms
  by (auto simp: post_otp_verify_def Let_def split: if_splits option.splits)

theorem otp_single_use_witness:
  "post_otp_verify env_default (Some ''4155551234'') (Some ''1000'')
      (snd (post_otp env_default 0 5 (Some ''4155551234'') empty_store))
     = (Inr ''+14155551234'', empty_store)
   \<and> post_otp_verify env_default (Some ''4155551234'') (Some ''1000'') empty_store
     = (Inl (400, ''No OTP requested''), empty_store)"
proof -
  have h: "post_otp_verify env_default (Some ''4155551234'') (Some ''1000'')
      (snd (post_otp env_default 0 5 (Some ''4155551234'') empty_store))
     = (Inr ''+14155551234'', empty_store)"
    by (simp add: post_otp_verify_def post_otp_def Let_def falsy_def valid_4155551234
        norm_4155551234 key_of_def String_of_def otp_code_0 empty_store_def NODE_ENV_default)
  from otp_single_use [OF h] h show ?thesis by simp
qed




subsection \<open>Order creation and status updates\<close>

lemma completed_store_orders:
  "orders completed_store =
     [\<lparr>order_id = ''ORD-5'', tableNumber = None, customerName = ''Guest'',
       items = [one_item], totalAmount = Num 10, status = ''COMPLETED'', createdAt = 5,
       updatedAt = Some 7\<rparr>]"
  by (simp add: completed_store_def patch_order_def post_orders_def Let_def empty_store_def
      String_int_def or_null_def str_or_def one_item_def line_amount_def num_or_def
      fl_numeral)

text \<open>
  C1 as stated does not hold: the handler assigns whatever non-empty status the body
  carries, with no look at the current one. The stored order is \<open>COMPLETED\<close>, and a
  request for \<open>PENDING\<close> makes it \<open>PENDING\<close>.
\<close>

theorem completed_not_terminal_counterexample:
  "status (orders completed_store ! 0) = ''COMPLETED''
   \<and> status (orders (snd (patch_order 9 (Some ''PENDING'') ''ORD-5'' completed_store)) ! 0)
       = ''PENDING''"
  by (simp add: patch_order_def Let_def completed_store_orders)

text \<open>
  C1, amended. For the stored order a request targets (the first one with the id), when
  its status is \<open>COMPLETED\<close>: a request that carries no status, or an empty one, leaves
  the status \<open>COMPLETED\<close>, and a request that carries a non-empty status sets the status
  to the requested value.
\<close>

theorem patch_order_status:
  assumes "findIndex (\<lambda>x. order_id x = oid) (orders st) = Some i"
    and "status (orders st ! i) = ''COMPLETED''"
  shows "(falsy req \<longrightarrow>
            status (orders (snd (patch_order now req oid st)) ! i) = ''COMPLETED'')
       \<and> (\<forall>s. req = Some s \<and> s \<noteq> [] \<longrightarrow>
            status (orders (snd (patch_order now req oid st)) ! i) = s)"
  using assms findIndex_Some [OF assms(1)]
  by (auto simp: patch_order_def Let_def falsy_def split: option.splits)

theorem patch_order_status_witness:
  "findIndex (\<lambda>x. order_id x = ''ORD-5'') (orders completed_store) = Some 0
   \<and> status (orders completed_store ! 0) = ''COMPLETED''
   \<and> status (orders (snd (patch_order 9 None ''ORD-5'' completed_store)) ! 0) = ''COMPLETED''
   \<and> status (orders (snd (patch_order 9 (Some ''READY'') ''ORD-5'' completed_store)) ! 0)
       = ''READY''"
proof -
  have h1: "findIndex (\<lambda>x. order_id x = ''ORD-5'') (orders completed_store) = Some 0"
    by (simp add: completed_store_orders)
  have h2: "status (orders completed_store ! 0) = ''COMPLETED''"
    by (simp add: completed_store_orders)
  from patch_order_status [OF h1 h2, of None 9]
    patch_order_status [OF h1 h2, of "Some ''READY''" 9] h1 h2
  show ?thesis by (simp add: falsy_def)
qed

lemma priced_simps [simp]:
  "price (priced p q) = Some (Num (of_int p))"
  "quantity (priced p q) = Some (Num (of_int q))"
  by (simp_all add: priced_def)

lemma subtotal_exact:
  assumes "\<forall>it\<in>set its. holds_int (price it) \<and> 0 \<le> int_value (price it)
                      \<and> holds_int (quantity it) \<and> 0 < int_value (quantity it)"
    and "(\<Sum>it\<leftarrow>its. int_value (price it) * int_value (quantity it)) \<le> 2 ^ 53"
  shows "foldl (\<lambda>s it. fadd s (line_amount it)) (Num 0) its
         = Num (of_int (\<Sum>it\<leftarrow>its. int_value (price it) * int_value (quantity it)))"
proof -
  let ?v = "\<lambda>it. int_value (price it) * int_value (quantity it)"
  have nonneg: "0 \<le> ?v it" if "it \<in> set its" for it
  proof -
    from assms(1) that have "0 \<le> int_value (price it)" "0 < int_value (quantity it)"
      by auto
    then show ?thesis by (simp add: mult_nonneg_nonneg less_imp_le)
  qed
  have each: "?v it \<le> 2 ^ 53" if "it \<in> set its" for it
  proof -
    have "?v it \<le> sum_list (map ?v its)"
      using that nonneg by (intro member_le_sum_list) auto
    with assms(2) show ?thesis by linarith
  qed
  have "\<forall>it\<in>set its. line_amount it = Num (of_int (?v it)) \<and> 0 \<le> ?v it"
  proof (intro ballI conjI)
    fix it assume it: "it \<in> set its"
    from assms(1) it have "holds_int (price it)" "holds_int (quantity it)"
      "0 \<le> int_value (price it)" "0 < int_value (quantity it)" by auto
    then show "line_amount it = Num (of_int (?v it))"
      using each [OF it] by (rule line_amount_int)
    show "0 \<le> ?v it" using it by (rule nonneg)
  qed
  from foldl_fadd_exact [OF this, of 0] assms(2)
  show ?thesis by simp
qed

lemma num_or_truthy: "num_or (Some n) d = (if truthy n then n else d)" "num_or None d = d"
  by (simp_all add: num_or_def)

text \<open>
  C8 as stated does not hold in two ways. \<^verbatim>\<open>totalAmount || ...\<close> takes a supplied
  \<open>0\<close> for a missing value: the body supplies the total 0, and the order is created
  with 10. And the sum is a sum of doubles: for prices 9007199254740991 and 2, whose sum
  is 9007199254740993, the order is created with 9007199254740992.
\<close>

theorem post_orders_totalAmount_counterexample:
  "totalAmount (last (orders (snd (post_orders 5 None None (ItemArray [one_item])
      (Some (Num 0)) empty_store)))) = Num 10
   \<and> totalAmount (last (orders (snd (post_orders 5 None None
        (ItemArray [priced 9007199254740991 1, priced 2 1]) None empty_store))))
      = Num 9007199254740992
   \<and> (9007199254740991 :: int) * 1 + 2 * 1 = 9007199254740993"
proof -
  have tie: "fl 9007199254740993 = Num 9007199254740992"
  proof -
    have "fl 9007199254740993 = Num (of_int 4503599627370496 * 2 powi (53 - 52))"
      by (rule fl_eval) (simp_all add: rne_def floor_rat_numeral)
    then show ?thesis by simp
  qed
  show ?thesis
    by (simp add: post_orders_def Let_def empty_store_def one_item_def line_amount_def
        num_or_def fl_numeral fl_1 tie)
qed

text \<open>
  C8, amended. For a non-empty list of items that hold integer prices, not negative, and
  positive integer quantities, the sum of price times quantity being at most \<open>2^53\<close>,
  \<open>POST /orders\<close> appends one order; its \<open>totalAmount\<close> is the supplied value when one
  is supplied and is truthy (neither 0 nor \<^verbatim>\<open>NaN\<close>), and that sum when none is supplied
  or the supplied one is falsy.
\<close>

theorem post_orders_totalAmount:
  assumes "its \<noteq> []"
    and "\<forall>it\<in>set its. holds_int (price it) \<and> 0 \<le> int_value (price it)
                      \<and> holds_int (quantity it) \<and> 0 < int_value (quantity it)"
    and "(\<Sum>it\<leftarrow>its. int_value (price it) * int_value (quantity it)) \<le> 2 ^ 53"
  shows "butlast (orders (snd (post_orders now tn cn (ItemArray its) ta st))) = orders st
     \<and> totalAmount (last (orders (snd (post_orders now tn cn (ItemArray its) ta st)))) =
         (case ta of
            None \<Rightarrow> Num (of_int (\<Sum>it\<leftarrow>its. int_value (price it) * int_value (quantity it)))
          | Some n \<Rightarrow>
              if truthy n then n
              else Num (of_int (\<Sum>it\<leftarrow>its. int_value (price it) * int_value (quantity it))))"
  using assms(1) subtotal_exact [OF assms(2,3)]
  by (simp add: post_orders_def Let_def num_or_def split: option.splits)

lemma one_item_ok:
  "\<forall>it\<in>set [one_item]. holds_int (price it) \<and> 0 \<le> int_value (price it)
                      \<and> holds_int (quantity it) \<and> 0 < int_value (quantity it)"
  by (simp add: one_item_def holds_int_def int_value_def)

lemma one_item_sum:
  "(\<Sum>it\<leftarrow>[one_item]. int_value (price it) * int_value (quantity it)) = 10"
  by (simp add: one_item_def int_value_def)

theorem post_orders_totalAmount_witness:
  "[one_item] \<noteq> []
   \<and> price one_item = Some (Num 10) \<and> quantity one_item = Some (Num 1)
   \<and> totalAmount (last (orders (snd
        (post_orders 5 None None (ItemArray [one_item]) None empty_store)))) = Num 10
   \<and> totalAmount (last (orders (snd
        (post_orders 5 None None (ItemArray [one_item]) (Some (Num 25)) empty_store))))
      = Num 25"
proof -
  have h: "[one_item] \<noteq> []" by simp
  have b: "(\<Sum>it\<leftarrow>[one_item]. int_value (price it) * int_value (quantity it)) \<le> 2 ^ 53"
    unfolding one_item_sum by simp
  have pq: "price one_item = Some (Num 10) \<and> quantity one_item = Some (Num 1)"
    by (simp add: one_item_def)
  from post_orders_totalAmount [OF h one_item_ok b, of 5 None None None empty_store]
    post_orders_totalAmount [OF h one_item_ok b, of 5 None None "Some (Num 25)" empty_store]
    h pq
  show ?thesis by (simp add: int_value_def)
qed

subsection \<open>Idempotence of phone normalization\<close>

lemma startsWith_plus_iff: "startsWith v ''+'' \<longleftrightarrow> (\<exists>w. v = CHR ''+'' # w)"
  by (cases v) (simp_all add: startsWith_def)

lemma normalizePhone_fixed:
  assumes "startsWith v ''+''" and "\<forall>c\<in>set v. is_digit_or_plus c"
  shows "normalizePhone e (Some v) = Some v"
proof -
  from assms(1) have "v \<noteq> []" by (auto simp: startsWith_plus_iff)
  moreover from assms(2) have "filter is_digit_or_plus v = v" by (simp add: filter_id_conv)
  ultimately show ?thesis using assms(1) by (simp add: normalizePhone_Some)
qed

text \<open>
  C5 as stated does not hold for every configured country code: the variable is used as
  it is, and a value without a leading \<open>+\<close> is prepended again on the second pass. With
  \<^verbatim>\<open>DEFAULT_COUNTRY_CODE=91\<close>, \<open>5551234567\<close> becomes \<open>915551234567\<close> and then
  \<open>91915551234567\<close>.
\<close>

theorem normalizePhone_idempotent_counterexample:
  "normalizePhone \<lparr>DEFAULT_COUNTRY_CODE = Some ''91'', NODE_ENV = None, DEBUG_OTPS = None\<rparr>
       (Some ''5551234567'') = Some ''915551234567''
   \<and> normalizePhone \<lparr>DEFAULT_COUNTRY_CODE = Some ''91'', NODE_ENV = None, DEBUG_OTPS = None\<rparr>
       (normalizePhone
          \<lparr>DEFAULT_COUNTRY_CODE = Some ''91'', NODE_ENV = None, DEBUG_OTPS = None\<rparr>
          (Some ''5551234567'')) = Some ''91915551234567''"
  by (simp add: normalizePhone_Some startsWith_def is_digit_or_plus_def is_digit_def
      country_code_def)

text \<open>
  C5, amended. When the country code in force begins with \<open>+\<close> and consists of digits
  and plus signs, as the default \<open>+1\<close> does, normalization is idempotent on every raw
  input, a \<^verbatim>\<open>null\<close> result staying \<^verbatim>\<open>null\<close>.
\<close>

theorem normalizePhone_idempotent:
  assumes "startsWith (country_code e) ''+''"
    and "\<forall>c\<in>set (country_code e). is_digit_or_plus c"
  shows "normalizePhone e (normalizePhone e raw) = normalizePhone e raw"
proof (cases raw)
  case None
  then show ?thesis by (simp add: normalizePhone_def)
next
  case (Some r)
  show ?thesis
  proof (cases "r = []")
    case True
    with Some show ?thesis by (simp add: normalizePhone_def)
  next
    case False
    let ?f = "filter is_digit_or_plus r"
    let ?v = "if startsWith ?f ''+'' then ?f
              else country_code e @ dropWhile (\<lambda>c. c = CHR ''0'') ?f"
    have n: "normalizePhone e (Some r) = Some ?v"
      using False by (rule normalizePhone_Some)
    have "startsWith ?v ''+''"
      using assms(1) by (auto simp: startsWith_plus_iff)
    moreover have "\<forall>c\<in>set ?v. is_digit_or_plus c"
      using assms(2) by (auto dest: set_dropWhileD)
    ultimately have "normalizePhone e (Some ?v) = Some ?v"
      by (rule normalizePhone_fixed)
    with n Some show ?thesis by simp
  qed
qed

lemma country_code_default: "country_code env_default = ''+1''"
  by (simp add: country_code_def env_default_def)

theorem normalizePhone_idempotent_witness:
  "country_code env_default = ''+1''
   \<and> normalizePhone env_default (Some '' 0455 123-456'') = Some ''+1455123456''
   \<and> normalizePhone env_default (Some ''+1455123456'') = Some ''+1455123456''"
proof -
  have h1: "startsWith (country_code env_default) ''+''"
    by (simp add: country_code_default startsWith_def)
  have h2: "\<forall>c\<in>set (country_code env_default). is_digit_or_plus c"
    by (simp add: country_code_default is_digit_or_plus_def is_digit_def)
  have v: "normalizePhone env_default (Some '' 0455 123-456'') = Some ''+1455123456''"
    by (simp add: normalizePhone_Some startsWith_def is_digit_or_plus_def is_digit_def
        country_code_default)
  from normalizePhone_idempotent [OF h1 h2, of "Some '' 0455 123-456''"] country_code_default v
  show ?thesis by simp
qed

subsection \<open>Bill arithmetic\<close>

lemma amounts_nonneg:
  assumes "\<forall>it\<in>set its. holds_int (price it) \<and> 0 \<le> int_value (price it)
                      \<and> holds_int (quantity it) \<and> 0 < int_value (quantity it)"
  shows "0 \<le> (\<Sum>it\<leftarrow>its. int_value (price it) * int_value (quantity it))"
proof (rule sum_list_nonneg)
  fix x assume "x \<in> set (map (\<lambda>it. int_value (price it) * int_value (quantity it)) its)"
  then obtain it where it: "it \<in> set its"
    and x: "x = int_value (price it) * int_value (quantity it)" by auto
  from assms it have "0 \<le> int_value (price it)" "0 < int_value (quantity it)" by auto
  then show "0 \<le> x" unfolding x by (simp add: mult_nonneg_nonneg less_imp_le)
qed

lemma post_bills_accepted:
  assumes "its \<noteq> []" and "falsy cp \<or> isValidPhone e cp"
  shows "\<exists>b. post_bills e now tn cn cp (ItemArray its) st
               = (Inr b, st\<lparr>bills := bills st @ [b]\<rparr>)
            \<and> subtotal b = foldl (\<lambda>s it. fadd s (line_amount it)) (Num 0) its
            \<and> tax b = Math_round (fmul (subtotal b) (fl (5 / 100)))
            \<and> service b = Math_round (fmul (subtotal b) (fl (2 / 100)))
            \<and> total b = fadd (fadd (subtotal b) (tax b)) (service b)
            \<and> bill_createdAt b = now"
  using assms by (auto simp: post_bills_def Let_def)

lemma bill_for_last:
  assumes "subtotal' = foldl (\<lambda>s it. fadd s (line_amount it)) (Num 0) [it]"
    and "tax' = Math_round (fmul subtotal' (fl (5 / 100)))"
    and "service' = Math_round (fmul subtotal' (fl (2 / 100)))"
  shows "\<exists>b. bills (bill_for now it st) = bills st @ [b]
           \<and> subtotal b = subtotal' \<and> tax b = tax' \<and> service b = service'
           \<and> total b = fadd (fadd subtotal' tax') service' \<and> bill_createdAt b = now"
proof -
  have "falsy None \<or> isValidPhone env_default None" by (simp add: falsy_def)
  from post_bills_accepted [OF _ this, of "[it]" now None None st]
  obtain b where "post_bills env_default now None None None (ItemArray [it]) st
               = (Inr b, st\<lparr>bills := bills st @ [b]\<rparr>)"
    and "subtotal b = foldl (\<lambda>s it. fadd s (line_amount it)) (Num 0) [it]"
    and "tax b = Math_round (fmul (subtotal b) (fl (5 / 100)))"
    and "service b = Math_round (fmul (subtotal b) (fl (2 / 100)))"
    and "total b = fadd (fadd (subtotal b) (tax b)) (service b)"
    and "bill_createdAt b = now"
    by auto
  then show ?thesis
    unfolding assms bill_for_def by (intro exI [of _ b]) simp
qed

lemma subtotal_priced:
  assumes "0 \<le> p" and "p \<le> 2 ^ 53"
  shows "foldl (\<lambda>s it. fadd s (line_amount it)) (Num 0) [priced p 1] = Num (of_int p)"
proof -
  have "\<forall>it\<in>set [priced p 1]. holds_int (price it) \<and> 0 \<le> int_value (price it)
                      \<and> holds_int (quantity it) \<and> 0 < int_value (quantity it)"
    using assms(1) by (simp add: holds_int_def int_value_def)
  moreover have "(\<Sum>it\<leftarrow>[priced p 1]. int_value (price it) * int_value (quantity it)) \<le> 2 ^ 53"
    using assms(2) by (simp add: int_value_def)
  ultimately have "foldl (\<lambda>s it. fadd s (line_amount it)) (Num 0) [priced p 1]
     = Num (of_int (\<Sum>it\<leftarrow>[priced p 1]. int_value (price it) * int_value (quantity it)))"
    by (rule subtotal_exact)
  then show ?thesis by (simp add: int_value_def)
qed

lemma tax_6800000000000009:
  "Math_round (fmul (Num (of_int 6800000000000009)) (fl (5 / 100))) = Num 340000000000001"
proof -
  have "fl (6800000000000009 * (3602879701896397 / 72057594037927936))
        = Num (of_int 5440000000000008 * 2 powi (48 - 52))"
    by (rule fl_eval) (simp_all add: rne_def floor_rat_numeral powi_neg_numeral)
  then have "fl (6800000000000009 * (3602879701896397 / 72057594037927936))
        = Num (680000000000001 / 2)"
    by (simp add: powi_neg_numeral)
  then have "Math_round (fl (of_int 6800000000000009 * (3602879701896397 / 72057594037927936)))
        = Num 340000000000001"
    by (simp add: floor_rat_numeral)
  then show ?thesis unfolding fl_taxRate fmul.simps .
qed

lemma bill_for_fields:
  assumes "subtotal' = foldl (\<lambda>s it. fadd s (line_amount it)) (Num 0) [it]"
    and "tax' = Math_round (fmul subtotal' (fl (5 / 100)))"
    and "service' = Math_round (fmul subtotal' (fl (2 / 100)))"
  shows "butlast (bills (bill_for now it st)) = bills st"
    and "subtotal (last (bills (bill_for now it st))) = subtotal'"
    and "tax (last (bills (bill_for now it st))) = tax'"
    and "service (last (bills (bill_for now it st))) = service'"
    and "total (last (bills (bill_for now it st))) = fadd (fadd subtotal' tax') service'"
    and "bill_createdAt (last (bills (bill_for now it st))) = now"
  using bill_for_last [OF assms, of now st] by auto

text \<open>
  C2 as stated does not hold for every list of items: the products, the sum and the two
  rates are doubles. For one item of price 6800000000000009 and quantity 1 the subtotal
  is exact, and five per cent of it is 340000000000000.45, which rounds to
  340000000000000; the bill's tax is 340000000000001.
\<close>

theorem post_bills_arithmetic_counterexample:
  "subtotal (last (bills (bill_for 5 (priced 6800000000000009 1) empty_store)))
     = Num 6800000000000009
   \<and> tax (last (bills (bill_for 5 (priced 6800000000000009 1) empty_store)))
     = Num 340000000000001
   \<and> \<lfloor>6800000000000009 * (5 / 100) + 1 / 2 :: rat\<rfloor> = 340000000000000"
proof -
  have sub: "foldl (\<lambda>s it. fadd s (line_amount it)) (Num 0) [priced 6800000000000009 1]
             = Num (of_int 6800000000000009)"
    by (rule subtotal_priced) simp_all
  note f = bill_for_fields [OF sub [symmetric] tax_6800000000000009 [symmetric] refl,
      of 5 empty_store]
  have "\<lfloor>6800000000000009 * (5 / 100) + 1 / 2 :: rat\<rfloor> = 340000000000000"
    by (simp add: floor_rat_numeral)
  with f(2,3) show ?thesis by simp
qed

lemma half_up_20:
  "rat_of_int ((s + 10) div 20) - 1 / 2 \<le> rat_of_int s * (5 / 100)"
  "rat_of_int s * (5 / 100) < rat_of_int ((s + 10) div 20) + 1 / 2"
proof -
  define k where "k = (s + 10) div 20"
  have "20 * k \<le> s + 10" "s + 10 \<le> 20 * k + 19" by (simp_all add: k_def)
  then have "(of_int (20 * k) :: rat) \<le> of_int (s + 10)"
    "(of_int (s + 10) :: rat) \<le> of_int (20 * k + 19)"
    by (simp_all only: of_int_le_iff)
  then show "rat_of_int ((s + 10) div 20) - 1 / 2 \<le> rat_of_int s * (5 / 100)"
    "rat_of_int s * (5 / 100) < rat_of_int ((s + 10) div 20) + 1 / 2"
    by (simp_all add: k_def [symmetric])
qed

lemma half_up_50:
  "rat_of_int ((s + 25) div 50) - 1 / 2 \<le> rat_of_int s * (2 / 100)"
  "rat_of_int s * (2 / 100) < rat_of_int ((s + 25) div 50) + 1 / 2"
proof -
  define k where "k = (s + 25) div 50"
  have "50 * k \<le> s + 25" "s + 25 \<le> 50 * k + 49" by (simp_all add: k_def)
  then have "(of_int (50 * k) :: rat) \<le> of_int (s + 25)"
    "(of_int (s + 25) :: rat) \<le> of_int (50 * k + 49)"
    by (simp_all only: of_int_le_iff)
  then show "rat_of_int ((s + 25) div 50) - 1 / 2 \<le> rat_of_int s * (2 / 100)"
    "rat_of_int s * (2 / 100) < rat_of_int ((s + 25) div 50) + 1 / 2"
    by (simp_all add: k_def [symmetric])
qed

lemma bill_amounts:
  assumes "0 \<le> s" and "s < 2 ^ 52"
    and "subtotal b = Num (of_int s)"
    and "tax b = Math_round (fmul (subtotal b) (fl (5 / 100)))"
    and "service b = Math_round (fmul (subtotal b) (fl (2 / 100)))"
    and "total b = fadd (fadd (subtotal b) (tax b)) (service b)"
  shows "tax b = Num (of_int ((s + 10) div 20))"
    and "service b = Num (of_int ((s + 25) div 50))"
    and "total b = Num (of_int (s + (s + 10) div 20 + (s + 25) div 50))"
proof -
  show t: "tax b = Num (of_int ((s + 10) div 20))"
    unfolding assms(4) assms(3) using assms(1,2) by (rule tax_round)
  show v: "service b = Num (of_int ((s + 25) div 50))"
    unfolding assms(5) assms(3) using assms(1,2) by (rule service_round)
  have b1: "\<bar>s + (s + 10) div 20\<bar> \<le> 2 ^ 53" using assms(1,2) by simp
  have b2: "\<bar>s + (s + 10) div 20 + (s + 25) div 50\<bar> \<le> 2 ^ 53" using assms(1,2) by simp
  show "total b = Num (of_int (s + (s + 10) div 20 + (s + 25) div 50))"
    unfolding assms(6) t v assms(3) fadd_int [OF b1] fadd_int [OF b2] ..
qed

text \<open>
  C2, amended. For a non-empty list of items that hold integer prices, not negative, and
  positive integer quantities, the sum of price times quantity being below \<open>2^52\<close> (and
  a customer phone that is absent or valid, so that the request is accepted),
  \<open>POST /bills\<close> appends and returns a bill whose subtotal is that sum, whose tax and
  service are five and two per cent of it rounded to the nearest integer with a tie going
  up, and whose total is the sum of the three. One item of price 120 and quantity 2 gives
  240, 12, 5 and 257; one of price 20 and quantity 2 gives 40, 2, 1 and 43.
\<close>

theorem post_bills_arithmetic:
  assumes "its \<noteq> []"
    and "\<forall>it\<in>set its. holds_int (price it) \<and> 0 \<le> int_value (price it)
                      \<and> holds_int (quantity it) \<and> 0 < int_value (quantity it)"
    and "S = (\<Sum>it\<leftarrow>its. int_value (price it) * int_value (quantity it))"
    and "S < 2 ^ 52"
    and "falsy cp \<or> isValidPhone e cp"
  shows "(\<exists>b t v. post_bills e now tn cn cp (ItemArray its) st
               = (Inr b, st\<lparr>bills := bills st @ [b]\<rparr>)
            \<and> subtotal b = Num (of_int S)
            \<and> tax b = Num (of_int t)
            \<and> rat_of_int t - 1 / 2 \<le> rat_of_int S * (5 / 100)
            \<and> rat_of_int S * (5 / 100) < rat_of_int t + 1 / 2
            \<and> service b = Num (of_int v)
            \<and> rat_of_int v - 1 / 2 \<le> rat_of_int S * (2 / 100)
            \<and> rat_of_int S * (2 / 100) < rat_of_int v + 1 / 2
            \<and> total b = Num (of_int (S + t + v)))
     \<and> (\<exists>b. fst (post_bills e now tn cn None
                 (ItemArray [\<lparr>item_id = i, item_name = n, price = Some (Num 120),
                              quantity = Some (Num 2)\<rparr>]) st) = Inr b
            \<and> subtotal b = Num 240 \<and> tax b = Num 12 \<and> service b = Num 5
            \<and> total b = Num 257)
     \<and> (\<exists>b. fst (post_bills e now tn cn None
                 (ItemArray [\<lparr>item_id = i, item_name = n, price = Some (Num 20),
                              quantity = Some (Num 2)\<rparr>]) st) = Inr b
            \<and> subtotal b = Num 40 \<and> tax b = Num 2 \<and> service b = Num 1
            \<and> total b = Num 43)"
proof -
  have general: "\<exists>b. post_bills e now tn cn cp' (ItemArray its') st
               = (Inr b, st\<lparr>bills := bills st @ [b]\<rparr>)
            \<and> subtotal b = Num (of_int S')
            \<and> tax b = Num (of_int ((S' + 10) div 20))
            \<and> service b = Num (of_int ((S' + 25) div 50))
            \<and> total b = Num (of_int (S' + (S' + 10) div 20 + (S' + 25) div 50))"
    if ne: "its' \<noteq> []"
      and ok: "\<forall>it\<in>set its'. holds_int (price it) \<and> 0 \<le> int_value (price it)
                      \<and> holds_int (quantity it) \<and> 0 < int_value (quantity it)"
      and S': "S' = (\<Sum>it\<leftarrow>its'. int_value (price it) * int_value (quantity it))"
      and small: "S' < 2 ^ 52"
      and ph: "falsy cp' \<or> isValidPhone e cp'"
    for its' S' cp'
  proof -
    from post_bills_accepted [OF ne ph, of now tn cn st]
    obtain b where b: "post_bills e now tn cn cp' (ItemArray its') st
               = (Inr b, st\<lparr>bills := bills st @ [b]\<rparr>)"
      "subtotal b = foldl (\<lambda>s it. fadd s (line_amount it)) (Num 0) its'"
      "tax b = Math_round (fmul (subtotal b) (fl (5 / 100)))"
      "service b = Math_round (fmul (subtotal b) (fl (2 / 100)))"
      "total b = fadd (fadd (subtotal b) (tax b)) (service b)"
      by auto
    have le: "(\<Sum>it\<leftarrow>its'. int_value (price it) * int_value (quantity it)) \<le> 2 ^ 53"
      using small unfolding S' by simp
    have s: "subtotal b = Num (of_int S')"
      unfolding b(2) S' using ok le by (rule subtotal_exact)
    have S0: "0 \<le> S'"
      unfolding S' using ok by (rule amounts_nonneg)
    from bill_amounts [OF S0 small s b(3,4,5)] b(1) s show ?thesis by blast
  qed
  have first: "\<exists>b t v. post_bills e now tn cn cp (ItemArray its) st
               = (Inr b, st\<lparr>bills := bills st @ [b]\<rparr>)
            \<and> subtotal b = Num (of_int S)
            \<and> tax b = Num (of_int t)
            \<and> rat_of_int t - 1 / 2 \<le> rat_of_int S * (5 / 100)
            \<and> rat_of_int S * (5 / 100) < rat_of_int t + 1 / 2
            \<and> service b = Num (of_int v)
            \<and> rat_of_int v - 1 / 2 \<le> rat_of_int S * (2 / 100)
            \<and> rat_of_int S * (2 / 100) < rat_of_int v + 1 / 2
            \<and> total b = Num (of_int (S + t + v))"
    using general [OF assms] half_up_20 [of S] half_up_50 [of S] by blast
  have none: "falsy None \<or> isValidPhone e None" by (simp add: falsy_def)
  have second: "\<exists>b. fst (post_bills e now tn cn None
                 (ItemArray [\<lparr>item_id = i, item_name = n, price = Some (Num 120),
                              quantity = Some (Num 2)\<rparr>]) st) = Inr b
            \<and> subtotal b = Num 240 \<and> tax b = Num 12 \<and> service b = Num 5
            \<and> total b = Num 257"
    using general [of "[\<lparr>item_id = i, item_name = n, price = Some (Num 120),
                              quantity = Some (Num 2)\<rparr>]" 240 None, OF _ _ _ _ none]
    by (auto simp: holds_int_def int_value_def)
  have third: "\<exists>b. fst (post_bills e now tn cn None
                 (ItemArray [\<lparr>item_id = i, item_name = n, price = Some (Num 20),
                              quantity = Some (Num 2)\<rparr>]) st) = Inr b
            \<and> subtotal b = Num 40 \<and> tax b = Num 2 \<and> service b = Num 1
            \<and> total b = Num 43"
    using general [of "[\<lparr>item_id = i, item_name = n, price = Some (Num 20),
                              quantity = Some (Num 2)\<rparr>]" 40 None, OF _ _ _ _ none]
    by (auto simp: holds_int_def int_value_def)
  from first second third show ?thesis by blast
qed

lemma two_samosas_ok:
  "\<forall>it\<in>set [two_samosas]. holds_int (price it) \<and> 0 \<le> int_value (price it)
                      \<and> holds_int (quantity it) \<and> 0 < int_value (quantity it)"
  by (simp add: two_samosas_def holds_int_def int_value_def)

lemma two_samosas_sum:
  "40 = (\<Sum>it\<leftarrow>[two_samosas]. int_value (price it) * int_value (quantity it))"
  by (simp add: two_samosas_def int_value_def)

theorem post_bills_arithmetic_witness:
  "[two_samosas] \<noteq> []
   \<and> price two_samosas = Some (Num 20) \<and> quantity two_samosas = Some (Num 2)
   \<and> (40 :: int) < 2 ^ 52 \<and> falsy None
   \<and> subtotal (last (bills (bill_for 5 two_samosas empty_store))) = Num 40
   \<and> tax (last (bills (bill_for 5 two_samosas empty_store))) = Num 2
   \<and> service (last (bills (bill_for 5 two_samosas empty_store))) = Num 1
   \<and> total (last (bills (bill_for 5 two_samosas empty_store))) = Num 43"
proof -
  have h1: "[two_samosas] \<noteq> []" by simp
  have h4: "(40 :: int) < 2 ^ 52" by simp
  have h5: "falsy None \<or> isValidPhone env_default None" by (simp add: falsy_def)
  have pq: "price two_samosas = Some (Num 20) \<and> quantity two_samosas = Some (Num 2)
            \<and> falsy None"
    by (simp add: two_samosas_def falsy_def)
  from post_bills_arithmetic [OF h1 two_samosas_ok two_samosas_sum h4 h5,
      of 5 None None empty_store]
  obtain b t v where b: "post_bills env_default 5 None None None (ItemArray [two_samosas])
        empty_store = (Inr b, empty_store\<lparr>bills := bills empty_store @ [b]\<rparr>)"
    and s: "subtotal b = Num (of_int 40)"
    and t: "tax b = Num (of_int t)" "rat_of_int t - 1 / 2 \<le> rat_of_int 40 * (5 / 100)"
      "rat_of_int 40 * (5 / 100) < rat_of_int t + 1 / 2"
    and v: "service b = Num (of_int v)" "rat_of_int v - 1 / 2 \<le> rat_of_int 40 * (2 / 100)"
      "rat_of_int 40 * (2 / 100) < rat_of_int v + 1 / 2"
    and tot: "total b = Num (of_int (40 + t + v))"
    by blast
  have "rat_of_int t < 3" "1 < rat_of_int t" using t(2,3) by simp_all
  then have t2: "t = 2" by simp
  have "rat_of_int v < 2" "0 < rat_of_int v" using v(2,3) by simp_all
  then have v1: "v = 1" by simp
  have l: "last (bills (bill_for 5 two_samosas empty_store)) = b"
    by (simp add: bill_for_def b)
  show ?thesis
    using h1 h4 pq s t(1) v(1) tot by (simp add: l t2 v1)
qed

subsection \<open>Daily report\<close>

lemma sum_filter_disjoint:
  fixes f :: "'a \<Rightarrow> 'b::comm_monoid_add"
  assumes "\<And>x. x \<in> set xs \<Longrightarrow> \<not> (P x \<and> Q x)"
  shows "sum_list (map f (filter (\<lambda>x. P x \<or> Q x) xs))
         = sum_list (map f (filter P xs)) + sum_list (map f (filter Q xs))"
  using assms by (induction xs) (auto simp: add_ac)

lemma buckets_partition:
  fixes f :: "'a \<Rightarrow> 'b::comm_monoid_add" and c :: "'a \<Rightarrow> int"
  assumes "0 < w"
  shows "(\<Sum>h\<leftarrow>[0..<n].
            sum_list (map f (filter (\<lambda>b. s + int h * w \<le> c b \<and> c b \<le> s + int h * w + w - 1) xs)))
         = sum_list (map f (filter (\<lambda>b. s \<le> c b \<and> c b < s + int n * w) xs))"
proof (induction n)
  case 0
  then show ?case by simp
next
  case (Suc n)
  define t where "t = int n * w"
  have t: "0 \<le> t" using assms by (simp add: t_def)
  have split: "(\<lambda>b. s \<le> c b \<and> c b < s + int (Suc n) * w)
      = (\<lambda>b. (s \<le> c b \<and> c b < s + int n * w)
              \<or> (s + int n * w \<le> c b \<and> c b \<le> s + int n * w + w - 1))"
  proof
    fix b
    have "int (Suc n) * w = t + w" by (simp add: t_def algebra_simps)
    then show "(s \<le> c b \<and> c b < s + int (Suc n) * w)
      = ((s \<le> c b \<and> c b < s + int n * w)
              \<or> (s + int n * w \<le> c b \<and> c b \<le> s + int n * w + w - 1))"
      using t assms unfolding t_def [symmetric] by auto
  qed
  have "sum_list (map f (filter (\<lambda>b. s \<le> c b \<and> c b < s + int (Suc n) * w) xs))
      = sum_list (map f (filter (\<lambda>b. s \<le> c b \<and> c b < s + int n * w) xs))
        + sum_list (map f (filter (\<lambda>b. s + int n * w \<le> c b \<and> c b \<le> s + int n * w + w - 1) xs))"
    unfolding split by (rule sum_filter_disjoint) auto
  with Suc show ?case by simp
qed

lemma filter_window_whole:
  assumes "(e::int) < s + n"
  shows "filter (\<lambda>b. s \<le> c b \<and> c b < s + n) (filter (\<lambda>b. s \<le> c b \<and> c b \<le> e) xs)
         = filter (\<lambda>b. s \<le> c b \<and> c b \<le> e) xs"
  using assms by (induction xs) auto

lemma date_daily_report:
  "date (daily_report getTime today q st) = str_or q today"
  by (simp add: daily_report_def Let_def)

lemma totals_daily_report:
  assumes "getTime (date (daily_report getTime today q st) @ ''T00:00:00'') = Some s"
    and "getTime (date (daily_report getTime today q st) @ ''T23:59:59'') = Some e"
  shows "totalOrders (daily_report getTime today q st)
           = length (filter (\<lambda>b. s \<le> bill_createdAt b \<and> bill_createdAt b \<le> e) (bills st))"
    and "totalRevenue (daily_report getTime today q st)
           = foldl (\<lambda>a b. fadd a (num_or (Some (total b)) (Num 0))) (Num 0)
               (filter (\<lambda>b. s \<le> bill_createdAt b \<and> bill_createdAt b \<le> e) (bills st))"
  using assms
  by (simp_all add: date_daily_report daily_report_def Let_def ge_time_def le_time_def)

lemma average_daily_report:
  "averageOrderValue (daily_report getTime today q st)
     = (if totalOrders (daily_report getTime today q st) = 0 then Num 0
        else fdiv (totalRevenue (daily_report getTime today q st))
               (Num (of_nat (totalOrders (daily_report getTime today q st)))))"
  by (simp add: daily_report_def Let_def)

lemma hourly_daily_report:
  assumes "getTime (date (daily_report getTime today q st) @ ''T00:00:00'') = Some s"
    and "getTime (date (daily_report getTime today q st) @ ''T23:59:59'') = Some e"
  shows "map hour_orders (hourlyBreakdown (daily_report getTime today q st))
     = map (\<lambda>h. length (filter (\<lambda>b. s + int h * 3600000 \<le> bill_createdAt b
                                   \<and> bill_createdAt b \<le> s + int h * 3600000 + 3600000 - 1)
              (filter (\<lambda>b. s \<le> bill_createdAt b \<and> bill_createdAt b \<le> e) (bills st))))
         [0..<24]"
    and "map revenue (hourlyBreakdown (daily_report getTime today q st))
     = map (\<lambda>h. foldl (\<lambda>a b. fadd a (num_or (Some (total b)) (Num 0))) (Num 0)
              (filter (\<lambda>b. s + int h * 3600000 \<le> bill_createdAt b
                                   \<and> bill_createdAt b \<le> s + int h * 3600000 + 3600000 - 1)
              (filter (\<lambda>b. s \<le> bill_createdAt b \<and> bill_createdAt b \<le> e) (bills st))))
         [0..<24]"
  using assms
  by (simp_all add: date_daily_report daily_report_def Let_def ge_time_def le_time_def
      o_def mult.commute del: upt.simps)

lemma daily_report_NaN:
  assumes "getTime (date (daily_report getTime today q st) @ ''T00:00:00'') = None
         \<or> getTime (date (daily_report getTime today q st) @ ''T23:59:59'') = None"
  shows "totalOrders (daily_report getTime today q st) = 0"
    and "totalRevenue (daily_report getTime today q st) = Num 0"
    and "sum_list (map hour_orders (hourlyBreakdown (daily_report getTime today q st))) = 0"
    and "map revenue (hourlyBreakdown (daily_report getTime today q st))
         = map (\<lambda>h. Num 0) [0..<24]"
  using assms
  by (auto simp add: date_daily_report daily_report_def Let_def ge_time_def le_time_def
      o_def simp del: upt.simps)

lemma length_as_sum: "length xs = sum_list (map (\<lambda>_. 1::nat) xs)"
  by (induction xs) simp_all

lemma hourly_sums:
  fixes c :: "'a \<Rightarrow> int"
  assumes "e < s + 24 * 3600 * 1000"
  shows "(\<Sum>h\<leftarrow>[0..<24]. length (filter (\<lambda>b. s + int h * 3600000 \<le> c b
                                   \<and> c b \<le> s + int h * 3600000 + 3600000 - 1)
              (filter (\<lambda>b. s \<le> c b \<and> c b \<le> e) xs)))
         = length (filter (\<lambda>b. s \<le> c b \<and> c b \<le> e) xs)"
    and "(\<Sum>h\<leftarrow>[0..<24]. sum_list (map (f :: 'a \<Rightarrow> int)
              (filter (\<lambda>b. s + int h * 3600000 \<le> c b
                                   \<and> c b \<le> s + int h * 3600000 + 3600000 - 1)
              (filter (\<lambda>b. s \<le> c b \<and> c b \<le> e) xs))))
         = sum_list (map f (filter (\<lambda>b. s \<le> c b \<and> c b \<le> e) xs))"
proof -
  let ?D = "filter (\<lambda>b. s \<le> c b \<and> c b \<le> e) xs"
  have whole: "filter (\<lambda>b. s \<le> c b \<and> c b < s + int 24 * 3600000) ?D = ?D"
    using filter_window_whole [of e s "int 24 * 3600000" c xs] assms by simp
  have w: "(0::int) < 3600000" by simp
  show "(\<Sum>h\<leftarrow>[0..<24]. length (filter (\<lambda>b. s + int h * 3600000 \<le> c b
                                   \<and> c b \<le> s + int h * 3600000 + 3600000 - 1) ?D))
         = length ?D"
    unfolding length_as_sum [of "filter _ _"]
    unfolding buckets_partition [OF w, where f = "\<lambda>_. 1::nat" and n = 24 and s = s and c = c and xs = ?D] whole ..
  show "(\<Sum>h\<leftarrow>[0..<24]. sum_list (map f (filter (\<lambda>b. s + int h * 3600000 \<le> c b
                                   \<and> c b \<le> s + int h * 3600000 + 3600000 - 1) ?D)))
         = sum_list (map f ?D)"
    unfolding buckets_partition [OF w, where f = f and n = 24 and s = s and c = c and xs = ?D] whole ..
qed

lemma sum_list_filter_le:
  assumes "\<forall>x\<in>set xs. (0::int) \<le> v x"
  shows "sum_list (map v (filter P xs)) \<le> sum_list (map v xs)"
  using assms by (induction xs) (auto intro: add_increasing)

lemma revenue_exact:
  assumes "\<forall>b\<in>set xs. holds_int (Some (total b)) \<and> 0 \<le> int_value (Some (total b))"
    and "(\<Sum>b\<leftarrow>xs. int_value (Some (total b))) \<le> 2 ^ 53"
  shows "foldl (\<lambda>a b. fadd a (num_or (Some (total b)) (Num 0))) (Num 0) xs
         = Num (of_int (\<Sum>b\<leftarrow>xs. int_value (Some (total b))))"
proof -
  have "\<forall>b\<in>set xs. num_or (Some (total b)) (Num 0)
            = Num (of_int (int_value (Some (total b)))) \<and> 0 \<le> int_value (Some (total b))"
  proof (intro ballI conjI)
    fix b assume b: "b \<in> set xs"
    with assms(1) have "Some (total b) = Some (Num (of_int (int_value (Some (total b)))))"
      by (intro holds_intD) simp
    then have t: "total b = Num (of_int (int_value (Some (total b))))" by simp
    show "num_or (Some (total b)) (Num 0) = Num (of_int (int_value (Some (total b))))"
      by (subst (1) t) (simp add: num_or_def)
    show "0 \<le> int_value (Some (total b))" using assms(1) b by simp
  qed
  from foldl_fadd_exact [OF this, of 0] assms(2) show ?thesis by simp
qed

lemma subtotal_item:
  assumes "price it = Some (Num (of_int p))" and "quantity it = Some (Num (of_int q))"
    and "0 \<le> p" and "0 < q" and "p * q \<le> 2 ^ 53"
  shows "foldl (\<lambda>s it. fadd s (line_amount it)) (Num 0) [it] = Num (of_int (p * q))"
proof -
  have "\<forall>it\<in>set [it]. holds_int (price it) \<and> 0 \<le> int_value (price it)
                      \<and> holds_int (quantity it) \<and> 0 < int_value (quantity it)"
    using assms(3,4) by (simp add: assms(1,2) holds_int_def int_value_def)
  moreover have "(\<Sum>it\<leftarrow>[it]. int_value (price it) * int_value (quantity it)) \<le> 2 ^ 53"
    using assms(5) by (simp add: assms(1,2) int_value_def)
  ultimately have "foldl (\<lambda>s it. fadd s (line_amount it)) (Num 0) [it]
     = Num (of_int (\<Sum>it\<leftarrow>[it]. int_value (price it) * int_value (quantity it)))"
    by (rule subtotal_exact)
  then show ?thesis by (simp add: assms(1,2) int_value_def)
qed

lemma bill_for_stamp:
  assumes "foldl (\<lambda>s it. fadd s (line_amount it)) (Num 0) [it] = Num (of_int s)"
    and "0 \<le> s" and "s < 2 ^ 52"
  shows "map (\<lambda>b. (bill_createdAt b, total b)) (bills (bill_for now it st))
         = map (\<lambda>b. (bill_createdAt b, total b)) (bills st)
           @ [(now, Num (of_int (s + (s + 10) div 20 + (s + 25) div 50)))]"
proof -
  from bill_for_last [OF refl refl refl, where it = it and now = now and st = st]
  obtain b where b: "bills (bill_for now it st) = bills st @ [b]"
    and s: "subtotal b = foldl (\<lambda>s it. fadd s (line_amount it)) (Num 0) [it]"
    and t: "tax b = Math_round (fmul (foldl (\<lambda>s it. fadd s (line_amount it)) (Num 0) [it])
                      (fl (5 / 100)))"
    and v: "service b = Math_round (fmul (foldl (\<lambda>s it. fadd s (line_amount it)) (Num 0) [it])
                      (fl (2 / 100)))"
    and a: "total b = fadd (fadd (foldl (\<lambda>s it. fadd s (line_amount it)) (Num 0) [it])
                 (Math_round (fmul (foldl (\<lambda>s it. fadd s (line_amount it)) (Num 0) [it])
                      (fl (5 / 100)))))
                 (Math_round (fmul (foldl (\<lambda>s it. fadd s (line_amount it)) (Num 0) [it])
                      (fl (2 / 100))))"
    and c: "bill_createdAt b = now"
    by blast
  have s': "subtotal b = Num (of_int s)" unfolding s assms(1) ..
  have t': "tax b = Math_round (fmul (subtotal b) (fl (5 / 100)))" unfolding t s ..
  have v': "service b = Math_round (fmul (subtotal b) (fl (2 / 100)))" unfolding v s ..
  have a': "total b = fadd (fadd (subtotal b) (tax b)) (service b)" unfolding a t v s ..
  from bill_amounts(3) [OF assms(2,3) s' t' v' a'] b c show ?thesis by simp
qed

lemma five_chais_stamp:
  "map (\<lambda>b. (bill_createdAt b, total b)) (bills (bill_for now five_chais st))
   = map (\<lambda>b. (bill_createdAt b, total b)) (bills st) @ [(now, Num 161)]"
proof -
  have "foldl (\<lambda>s it. fadd s (line_amount it)) (Num 0) [five_chais] = Num (of_int (30 * 5))"
    by (rule subtotal_item) (simp_all add: five_chais_def)
  then have "foldl (\<lambda>s it. fadd s (line_amount it)) (Num 0) [five_chais] = Num (of_int 150)"
    by simp
  from bill_for_stamp [OF this, of now st] show ?thesis by simp
qed

lemma two_samosas_stamp:
  "map (\<lambda>b. (bill_createdAt b, total b)) (bills (bill_for now two_samosas st))
   = map (\<lambda>b. (bill_createdAt b, total b)) (bills st) @ [(now, Num 43)]"
proof -
  have "foldl (\<lambda>s it. fadd s (line_amount it)) (Num 0) [two_samosas] = Num (of_int (20 * 2))"
    by (rule subtotal_item) (simp_all add: two_samosas_def)
  then have "foldl (\<lambda>s it. fadd s (line_amount it)) (Num 0) [two_samosas] = Num (of_int 40)"
    by simp
  from bill_for_stamp [OF this, of now st] show ?thesis by simp
qed

lemma one_item_stamp:
  "map (\<lambda>b. (bill_createdAt b, total b)) (bills (bill_for now one_item st))
   = map (\<lambda>b. (bill_createdAt b, total b)) (bills st) @ [(now, Num 11)]"
proof -
  have "foldl (\<lambda>s it. fadd s (line_amount it)) (Num 0) [one_item] = Num (of_int (10 * 1))"
    by (rule subtotal_item) (simp_all add: one_item_def)
  then have "foldl (\<lambda>s it. fadd s (line_amount it)) (Num 0) [one_item] = Num (of_int 10)"
    by simp
  from bill_for_stamp [OF this, of now st] show ?thesis by simp
qed

lemma priced_1_stamp:
  "map (\<lambda>b. (bill_createdAt b, total b)) (bills (bill_for now (priced 1 1) st))
   = map (\<lambda>b. (bill_createdAt b, total b)) (bills st) @ [(now, Num 1)]"
proof -
  have "foldl (\<lambda>s it. fadd s (line_amount it)) (Num 0) [priced 1 1] = Num (of_int 1)"
    by (rule subtotal_priced) simp_all
  from bill_for_stamp [OF this, of now st] show ?thesis by simp
qed

lemma tax_8500000000000000:
  "Math_round (fmul (Num (of_int 8500000000000000)) (fl (5 / 100))) = Num 425000000000000"
proof -
  have "fl (8500000000000000 * (3602879701896397 / 72057594037927936))
        = Num (of_int 6800000000000000 * 2 powi (48 - 52))"
    by (rule fl_eval) (simp_all add: rne_def floor_rat_numeral powi_neg_numeral)
  then have "fl (8500000000000000 * (3602879701896397 / 72057594037927936))
        = Num 425000000000000"
    by (simp add: powi_neg_numeral)
  then have "Math_round (fl (of_int 8500000000000000 * (3602879701896397 / 72057594037927936)))
        = Num 425000000000000"
    by (simp add: floor_rat_numeral)
  then show ?thesis unfolding fl_taxRate fmul.simps .
qed

lemma service_8500000000000000:
  "Math_round (fmul (Num (of_int 8500000000000000)) (fl (2 / 100))) = Num 170000000000000"
proof -
  have "fl (8500000000000000 * (5764607523034235 / 288230376151711744))
        = Num (of_int 5440000000000000 * 2 powi (47 - 52))"
    by (rule fl_eval) (simp_all add: rne_def floor_rat_numeral powi_neg_numeral)
  then have "fl (8500000000000000 * (5764607523034235 / 288230376151711744))
        = Num 170000000000000"
    by (simp add: powi_neg_numeral)
  then have "Math_round (fl (of_int 8500000000000000 * (5764607523034235 / 288230376151711744)))
        = Num 170000000000000"
    by (simp add: floor_rat_numeral)
  then show ?thesis unfolding fl_serviceRate fmul.simps .
qed

lemma fl_9095000000000000: "fl 9095000000000000 = Num 9095000000000000"
  by (rule fl_exact [of _ 4547500000000000 1]) simp_all

lemma fl_9095000000000001: "fl 9095000000000001 = Num 9095000000000000"
proof -
  have "fl 9095000000000001 = Num (of_int 4547500000000000 * 2 powi (53 - 52))"
    by (rule fl_eval) (simp_all add: rne_def floor_rat_numeral)
  then show ?thesis by simp
qed

lemma fl_9095000000000003: "fl 9095000000000003 = Num 9095000000000004"
proof -
  have "fl 9095000000000003 = Num (of_int 4547500000000002 * 2 powi (53 - 52))"
    by (rule fl_eval) (simp_all add: rne_def floor_rat_numeral)
  then show ?thesis by simp
qed

lemma fl_65_3: "fl (65 / 3) = Num (6098624495397547 / 281474976710656)"
proof -
  have "fl (65 / 3) = Num (of_int 6098624495397547 * 2 powi (4 - 52))"
    by (rule fl_eval) (simp_all add: rne_def floor_rat_numeral powi_neg_numeral)
  then show ?thesis by (simp add: powi_neg_numeral)
qed

lemma priced_large_stamp:
  "map (\<lambda>b. (bill_createdAt b, total b)) (bills (bill_for now (priced 8500000000000000 1) st))
   = map (\<lambda>b. (bill_createdAt b, total b)) (bills st) @ [(now, Num 9095000000000000)]"
proof -
  have s: "foldl (\<lambda>s it. fadd s (line_amount it)) (Num 0) [priced 8500000000000000 1]
           = Num (of_int 8500000000000000)"
    by (rule subtotal_priced) simp_all
  from bill_for_last [OF refl refl refl, where it = "priced 8500000000000000 1" and now = now
      and st = st]
  obtain b where b: "bills (bill_for now (priced 8500000000000000 1) st) = bills st @ [b]"
    and a: "total b = fadd (fadd (Num (of_int 8500000000000000))
                 (Math_round (fmul (Num (of_int 8500000000000000)) (fl (5 / 100)))))
                 (Math_round (fmul (Num (of_int 8500000000000000)) (fl (2 / 100))))"
    and c: "bill_createdAt b = now"
    unfolding s by blast
  have "total b = Num 9095000000000000"
    unfolding a tax_8500000000000000 service_8500000000000000
    by (simp add: fl_numeral fl_9095000000000000)
  with b c show ?thesis by simp
qed

lemma two_bill_store_stamps:
  "map (\<lambda>b. (bill_createdAt b, total b)) (bills two_bill_store)
   = [(1763184248360, Num 161), (1763184601755, Num 43)]"
  by (simp add: two_bill_store_def two_samosas_stamp five_chais_stamp empty_store_def)

lemma three_bill_store_stamps:
  "map (\<lambda>b. (bill_createdAt b, total b)) (bills three_bill_store)
   = [(1763184248360, Num 43), (1763184601755, Num 11), (1763185200000, Num 11)]"
  by (simp add: three_bill_store_def two_samosas_stamp one_item_stamp empty_store_def)

lemma large_bill_store_stamps:
  "map (\<lambda>b. (bill_createdAt b, total b)) (bills large_bill_store)
   = [(1763184248360, Num 9095000000000000), (1763187000000, Num 1),
      (1763187000001, Num 1), (1763187000002, Num 1)]"
  by (simp add: large_bill_store_def priced_1_stamp priced_large_stamp empty_store_def)

lemma late_bill_store_stamps:
  "map (\<lambda>b. (bill_createdAt b, total b)) (bills late_bill_store)
   = [(1762144200000, Num 11)]"
  by (simp add: late_bill_store_def one_item_stamp empty_store_def)

lemma report_by_stamps:
  assumes "getTime (date (daily_report getTime today q st) @ ''T00:00:00'') = Some s"
    and "getTime (date (daily_report getTime today q st) @ ''T23:59:59'') = Some e"
  shows "totalOrders (daily_report getTime today q st)
           = length (filter (\<lambda>p. s \<le> fst p \<and> fst p \<le> e)
               (map (\<lambda>b. (bill_createdAt b, total b)) (bills st)))"
    and "totalRevenue (daily_report getTime today q st)
           = foldl (\<lambda>a p. fadd a (num_or (Some (snd p)) (Num 0))) (Num 0)
               (filter (\<lambda>p. s \<le> fst p \<and> fst p \<le> e)
                 (map (\<lambda>b. (bill_createdAt b, total b)) (bills st)))"
    and "map hour_orders (hourlyBreakdown (daily_report getTime today q st))
     = map (\<lambda>h. length (filter (\<lambda>p. s + int h * 3600000 \<le> fst p
                                   \<and> fst p \<le> s + int h * 3600000 + 3600000 - 1)
              (filter (\<lambda>p. s \<le> fst p \<and> fst p \<le> e)
                 (map (\<lambda>b. (bill_createdAt b, total b)) (bills st)))))
         [0..<24]"
    and "map revenue (hourlyBreakdown (daily_report getTime today q st))
     = map (\<lambda>h. foldl (\<lambda>a p. fadd a (num_or (Some (snd p)) (Num 0))) (Num 0)
              (filter (\<lambda>p. s + int h * 3600000 \<le> fst p
                                   \<and> fst p \<le> s + int h * 3600000 + 3600000 - 1)
              (filter (\<lambda>p. s \<le> fst p \<and> fst p \<le> e)
                 (map (\<lambda>b. (bill_createdAt b, total b)) (bills st)))))
         [0..<24]"
  unfolding totals_daily_report [OF assms] hourly_daily_report [OF assms]
  by (simp_all add: filter_map o_def foldl_map del: upt.simps)

lemma date_report_2025_11_15:
  "date (daily_report new_york_time ''2025-11-16'' (Some ''2025-11-15'') st) = ''2025-11-15''"
  by (simp add: date_daily_report str_or_def)

lemma window_2025_11_15:
  "new_york_time (date (daily_report new_york_time ''2025-11-16'' (Some ''2025-11-15'') st)
      @ ''T00:00:00'') = Some 1763182800000"
  "new_york_time (date (daily_report new_york_time ''2025-11-16'' (Some ''2025-11-15'') st)
      @ ''T23:59:59'') = Some 1763269199000"
  by (simp_all add: date_report_2025_11_15 new_york_time_def)

lemma totals_of_stamps:
  "map total xs = map snd (map (\<lambda>b. (bill_createdAt b, total b)) xs)"
  by simp

text \<open>
  C9 as stated does not hold for every collection of bills: the report adds the totals
  as doubles. Four bills of one day, made by \<open>POST /bills\<close>, have the totals
  9095000000000000, 1, 1 and 1, whose sum is 9095000000000003; the report's
  \<open>totalRevenue\<close> is 9095000000000000. The average is a double as well: for three bills
  with the totals 43, 11 and 11 the revenue is 65 and the average is the double nearest
  to 65 / 3, which is not 65 / 3.
\<close>

theorem daily_report_totals_counterexample:
  "map total (bills large_bill_store) = [Num 9095000000000000, Num 1, Num 1, Num 1]
   \<and> totalOrders (daily_report new_york_time ''2025-11-16'' (Some ''2025-11-15'')
        large_bill_store) = 4
   \<and> totalRevenue (daily_report new_york_time ''2025-11-16'' (Some ''2025-11-15'')
        large_bill_store) = Num 9095000000000000
   \<and> (9095000000000000 + 1 + 1 + 1 :: rat) = 9095000000000003
   \<and> map total (bills three_bill_store) = [Num 43, Num 11, Num 11]
   \<and> totalOrders (daily_report new_york_time ''2025-11-16'' (Some ''2025-11-15'')
        three_bill_store) = 3
   \<and> totalRevenue (daily_report new_york_time ''2025-11-16'' (Some ''2025-11-15'')
        three_bill_store) = Num 65
   \<and> averageOrderValue (daily_report new_york_time ''2025-11-16'' (Some ''2025-11-15'')
        three_bill_store) = Num (6098624495397547 / 281474976710656)
   \<and> (6098624495397547 / 281474976710656 :: rat) \<noteq> 65 / 3"
proof -
  let ?r = "daily_report new_york_time ''2025-11-16'' (Some ''2025-11-15'') large_bill_store"
  let ?q = "daily_report new_york_time ''2025-11-16'' (Some ''2025-11-15'') three_bill_store"
  have t: "map total (bills large_bill_store) = [Num 9095000000000000, Num 1, Num 1, Num 1]"
    unfolding totals_of_stamps large_bill_store_stamps by simp
  have n: "totalOrders ?r = 4"
    unfolding report_by_stamps(1) [OF window_2025_11_15] large_bill_store_stamps by simp
  have v: "totalRevenue ?r = Num 9095000000000000"
    unfolding report_by_stamps(2) [OF window_2025_11_15] large_bill_store_stamps
    by (simp add: num_or_def fl_9095000000000000 fl_9095000000000001)
  have t': "map total (bills three_bill_store) = [Num 43, Num 11, Num 11]"
    unfolding totals_of_stamps three_bill_store_stamps by simp
  have n': "totalOrders ?q = 3"
    unfolding report_by_stamps(1) [OF window_2025_11_15] three_bill_store_stamps by simp
  have v': "totalRevenue ?q = Num 65"
    unfolding report_by_stamps(2) [OF window_2025_11_15] three_bill_store_stamps
    by (simp add: num_or_def fl_numeral)
  have a': "averageOrderValue ?q = Num (6098624495397547 / 281474976710656)"
    unfolding average_daily_report n' v' by (simp add: fl_65_3)
  from t n v t' n' v' a' show ?thesis by simp
qed

text \<open>
  C9, amended. For a date whose two boundary strings parse, to \<open>s\<close> for 00:00:00 and \<open>e\<close>
  for 23:59:59, the report's \<open>totalOrders\<close> is the number of stored bills created in
  \<open>[s, e]\<close>, and its \<open>averageOrderValue\<close> is 0 when there is no such bill and the double
  quotient of \<open>totalRevenue\<close> by \<open>totalOrders\<close> otherwise. When the totals of these bills
  are integers, not negative, whose sum is at most \<open>2 ^ 53\<close>, \<open>totalRevenue\<close> is that sum
  and \<open>averageOrderValue\<close> is the double nearest to the sum divided by the number of
  bills. When the bills of the day are two, with totals 161 and 43, the three values are
  2, 204 and 102.
\<close>

theorem daily_report_totals:
  assumes "r = daily_report getTime today q st"
    and "getTime (date r @ ''T00:00:00'') = Some s"
    and "getTime (date r @ ''T23:59:59'') = Some e"
    and "D = filter (\<lambda>b. s \<le> bill_createdAt b \<and> bill_createdAt b \<le> e) (bills st)"
  shows "totalOrders r = length D
     \<and> averageOrderValue r
           = (if totalOrders r = 0 then Num 0
              else fdiv (totalRevenue r) (Num (of_nat (totalOrders r))))
     \<and> ((\<forall>b\<in>set D. holds_int (Some (total b)) \<and> 0 \<le> int_value (Some (total b)))
          \<and> (\<Sum>b\<leftarrow>D. int_value (Some (total b))) \<le> 2 ^ 53
        \<longrightarrow> totalRevenue r = Num (of_int (\<Sum>b\<leftarrow>D. int_value (Some (total b))))
          \<and> averageOrderValue r
              = (if D = [] then Num 0
                 else fl (of_int (\<Sum>b\<leftarrow>D. int_value (Some (total b))) / of_nat (length D))))
     \<and> (\<forall>b1 b2. D = [b1, b2] \<and> total b1 = Num 161 \<and> total b2 = Num 43
           \<longrightarrow> totalOrders r = 2 \<and> totalRevenue r = Num 204
               \<and> averageOrderValue r = Num 102)"
proof -
  have n: "totalOrders r = length D"
    using assms(2,3) unfolding assms(1,4) by (rule totals_daily_report(1))
  have v: "totalRevenue r = foldl (\<lambda>a b. fadd a (num_or (Some (total b)) (Num 0))) (Num 0) D"
    using assms(2,3) unfolding assms(1,4) by (rule totals_daily_report(2))
  have a: "averageOrderValue r
           = (if totalOrders r = 0 then Num 0
              else fdiv (totalRevenue r) (Num (of_nat (totalOrders r))))"
    unfolding assms(1) by (rule average_daily_report)
  have exact: "totalRevenue r = Num (of_int (\<Sum>b\<leftarrow>D. int_value (Some (total b))))
          \<and> averageOrderValue r
              = (if D = [] then Num 0
                 else fl (of_int (\<Sum>b\<leftarrow>D. int_value (Some (total b))) / of_nat (length D)))"
    if h: "(\<forall>b\<in>set D. holds_int (Some (total b)) \<and> 0 \<le> int_value (Some (total b)))
          \<and> (\<Sum>b\<leftarrow>D. int_value (Some (total b))) \<le> 2 ^ 53"
  proof -
    from h have v': "totalRevenue r = Num (of_int (\<Sum>b\<leftarrow>D. int_value (Some (total b))))"
      unfolding v by (intro revenue_exact) simp_all
    show ?thesis
      unfolding a unfolding v' n by (simp add: v')
  qed
  have example: "totalOrders r = 2 \<and> totalRevenue r = Num 204 \<and> averageOrderValue r = Num 102"
    if "D = [b1, b2] \<and> total b1 = Num 161 \<and> total b2 = Num 43" for b1 b2
  proof -
    from that n have n2: "totalOrders r = 2" by simp
    from that have v2: "totalRevenue r = Num 204"
      unfolding v by (simp add: num_or_def fl_numeral)
    have "averageOrderValue r = Num 102"
      unfolding a n2 v2 by (simp add: fl_numeral)
    with n2 v2 show ?thesis by simp
  qed
  from n a exact example show ?thesis by blast
qed

lemma two_bill_store_obtain:
  "\<exists>b1 b2. bills two_bill_store = [b1, b2]
     \<and> bill_createdAt b1 = 1763184248360 \<and> total b1 = Num 161
     \<and> bill_createdAt b2 = 1763184601755 \<and> total b2 = Num 43"
  using two_bill_store_stamps by (auto simp: map_eq_Cons_conv)

theorem daily_report_totals_witness:
  "new_york_time (date (daily_report new_york_time ''2025-11-16'' (Some ''2025-11-15'')
       two_bill_store) @ ''T00:00:00'') = Some 1763182800000
   \<and> new_york_time (date (daily_report new_york_time ''2025-11-16'' (Some ''2025-11-15'')
       two_bill_store) @ ''T23:59:59'') = Some 1763269199000
   \<and> map bill_createdAt (bills two_bill_store) = [1763184248360, 1763184601755]
   \<and> map total (bills two_bill_store) = [Num 161, Num 43]
   \<and> totalOrders (daily_report new_york_time ''2025-11-16'' (Some ''2025-11-15'')
       two_bill_store) = 2
   \<and> totalRevenue (daily_report new_york_time ''2025-11-16'' (Some ''2025-11-15'')
       two_bill_store) = Num 204
   \<and> averageOrderValue (daily_report new_york_time ''2025-11-16'' (Some ''2025-11-15'')
       two_bill_store) = Num 102"
proof -
  let ?r = "daily_report new_york_time ''2025-11-16'' (Some ''2025-11-15'') two_bill_store"
  let ?D = "filter (\<lambda>b. 1763182800000 \<le> bill_createdAt b \<and> bill_createdAt b \<le> 1763269199000)
              (bills two_bill_store)"
  from two_bill_store_obtain obtain b1 b2 where b: "bills two_bill_store = [b1, b2]"
    and b1: "bill_createdAt b1 = 1763184248360" "total b1 = Num 161"
    and b2: "bill_createdAt b2 = 1763184601755" "total b2 = Num 43"
    by blast
  have D: "?D = [b1, b2]" by (simp add: b b1 b2)
  have h: "(\<forall>b\<in>set ?D. holds_int (Some (total b)) \<and> 0 \<le> int_value (Some (total b)))
          \<and> (\<Sum>b\<leftarrow>?D. int_value (Some (total b))) \<le> 2 ^ 53"
    unfolding D by (simp add: b1 b2 holds_int_def int_value_def)
  have V: "(\<Sum>b\<leftarrow>?D. int_value (Some (total b))) = 204"
    unfolding D by (simp add: b1 b2 int_value_def)
  from daily_report_totals [OF refl window_2025_11_15 refl, of two_bill_store] h
  have "totalOrders ?r = length ?D"
    and "totalRevenue ?r = Num (of_int (\<Sum>b\<leftarrow>?D. int_value (Some (total b))))"
    and "averageOrderValue ?r
              = (if ?D = [] then Num 0
                 else fl (of_int (\<Sum>b\<leftarrow>?D. int_value (Some (total b))) / of_nat (length ?D)))"
    by blast+
  then have "totalOrders ?r = 2" "totalRevenue ?r = Num 204" "averageOrderValue ?r = Num 102"
    unfolding V unfolding D by (simp_all add: fl_numeral)
  with window_2025_11_15 [of two_bill_store] show ?thesis
    by (simp add: b b1 b2)
qed

lemma window_2025_11_02:
  "new_york_time (date (daily_report new_york_time ''2025-11-03'' (Some ''2025-11-02'') st)
      @ ''T00:00:00'') = Some 1762056000000"
  "new_york_time (date (daily_report new_york_time ''2025-11-03'' (Some ''2025-11-02'') st)
      @ ''T23:59:59'') = Some 1762145999000"
  by (simp_all add: date_daily_report str_or_def new_york_time_def)

lemma upt_24:
  "[0..<24] = [0, 1, 2, 3, 4, 5, 6, 7, 8, 9, 10, 11, 12, 13, 14, 15, 16, 17, 18, 19, 20,
               21, 22, 23]"
  by (simp add: upt_rec)

lemma length_hourlyBreakdown: "length (hourlyBreakdown (daily_report getTime today q st)) = 24"
  by (simp add: daily_report_def Let_def del: upt.simps)

text \<open>
  C10 as stated does not hold on a day that lasts more than 24 hours on the host's
  clock: the 24 buckets cover the 24 hours after midnight, and the window of the day
  reaches further. In New York on 2025-11-02 a bill made at 23:30 is counted in
  \<open>totalOrders\<close> and in no bucket. Nor does the revenue part hold on a day of 24 hours
  when the totals are large, because the sums are sums of doubles: with one bill of
  9095000000000000 in the first hour and three bills of 1 in the second, the hourly
  revenues are 9095000000000000 and 3, which add up to 9095000000000003 and as doubles
  to 9095000000000004, and \<open>totalRevenue\<close> is 9095000000000000.
\<close>

theorem hourly_breakdown_counterexample:
  "totalOrders (daily_report new_york_time ''2025-11-03'' (Some ''2025-11-02'')
      late_bill_store) = 1
   \<and> sum_list (map hour_orders (hourlyBreakdown
        (daily_report new_york_time ''2025-11-03'' (Some ''2025-11-02'') late_bill_store)))
     = 0
   \<and> map revenue (hourlyBreakdown
        (daily_report new_york_time ''2025-11-16'' (Some ''2025-11-15'') large_bill_store))
     = Num 9095000000000000 # Num 3 # replicate 22 (Num 0)
   \<and> fadd (Num 9095000000000000) (Num 3) = Num 9095000000000004
   \<and> totalRevenue (daily_report new_york_time ''2025-11-16'' (Some ''2025-11-15'')
        large_bill_store) = Num 9095000000000000"
proof -
  let ?r = "daily_report new_york_time ''2025-11-03'' (Some ''2025-11-02'') late_bill_store"
  let ?q = "daily_report new_york_time ''2025-11-16'' (Some ''2025-11-15'') large_bill_store"
  have "totalOrders ?r = 1"
    unfolding report_by_stamps(1) [OF window_2025_11_02] late_bill_store_stamps by simp
  moreover have "sum_list (map hour_orders (hourlyBreakdown ?r)) = 0"
    unfolding report_by_stamps(3) [OF window_2025_11_02] late_bill_store_stamps upt_24
    by simp
  moreover have "map revenue (hourlyBreakdown ?q)
                 = Num 9095000000000000 # Num 3 # replicate 22 (Num 0)"
    unfolding report_by_stamps(4) [OF window_2025_11_15] large_bill_store_stamps upt_24
    by (simp add: num_or_def fl_9095000000000000 fl_numeral fl_1 numeral_eq_Suc)
  moreover have "fadd (Num 9095000000000000) (Num 3) = Num 9095000000000004"
    by (simp add: fl_9095000000000003)
  moreover have "totalRevenue ?q = Num 9095000000000000"
    unfolding report_by_stamps(2) [OF window_2025_11_15] large_bill_store_stamps
    by (simp add: num_or_def fl_9095000000000000 fl_9095000000000001)
  ultimately show ?thesis by blast
qed

text \<open>
  C10, amended. When the date's 23:59:59 is less than 24 hours after its 00:00:00 on the
  host's clock (or one of the two does not parse), the report has 24 hourly entries and
  the sum of their order counts is \<open>totalOrders\<close>. When moreover the totals of the bills
  of the day are integers, not negative, whose sum is at most \<open>2 ^ 53\<close>, the hourly
  revenues are integers and their sum is \<open>totalRevenue\<close>.
\<close>

theorem hourly_breakdown_partition:
  assumes "r = daily_report getTime today q st"
    and "\<forall>s e. getTime (date r @ ''T00:00:00'') = Some s
              \<and> getTime (date r @ ''T23:59:59'') = Some e
            \<longrightarrow> e < s + 24 * 3600 * 1000"
  shows "length (hourlyBreakdown r) = 24
       \<and> sum_list (map hour_orders (hourlyBreakdown r)) = totalOrders r
       \<and> ((\<forall>s e. getTime (date r @ ''T00:00:00'') = Some s
                 \<and> getTime (date r @ ''T23:59:59'') = Some e
              \<longrightarrow> (\<forall>b\<in>set (filter (\<lambda>b. s \<le> bill_createdAt b \<and> bill_createdAt b \<le> e)
                               (bills st)).
                      holds_int (Some (total b)) \<and> 0 \<le> int_value (Some (total b)))
                  \<and> (\<Sum>b\<leftarrow>filter (\<lambda>b. s \<le> bill_createdAt b \<and> bill_createdAt b \<le> e)
                               (bills st). int_value (Some (total b))) \<le> 2 ^ 53)
          \<longrightarrow> (\<exists>vs. map revenue (hourlyBreakdown r) = map (\<lambda>v. Num (of_int v)) vs
                    \<and> totalRevenue r = Num (of_int (sum_list vs))))"
proof (intro conjI impI)
  show "length (hourlyBreakdown r) = 24"
    unfolding assms(1) by (rule length_hourlyBreakdown)
next
  show "sum_list (map hour_orders (hourlyBreakdown r)) = totalOrders r"
  proof (cases "getTime (date r @ ''T00:00:00'') = None
              \<or> getTime (date r @ ''T23:59:59'') = None")
    case True
    then show ?thesis
      unfolding assms(1) by (simp only: daily_report_NaN(1,3))
  next
    case False
    then obtain s e where se: "getTime (date r @ ''T00:00:00'') = Some s"
      "getTime (date r @ ''T23:59:59'') = Some e"
      by auto
    with assms(2) have short: "e < s + 24 * 3600 * 1000" by blast
    show ?thesis
      using se unfolding assms(1)
      by (simp only: hourly_daily_report(1) totals_daily_report(1) hourly_sums(1) [OF short])
  qed
next
  assume size: "\<forall>s e. getTime (date r @ ''T00:00:00'') = Some s
                 \<and> getTime (date r @ ''T23:59:59'') = Some e
              \<longrightarrow> (\<forall>b\<in>set (filter (\<lambda>b. s \<le> bill_createdAt b \<and> bill_createdAt b \<le> e)
                               (bills st)).
                      holds_int (Some (total b)) \<and> 0 \<le> int_value (Some (total b)))
                  \<and> (\<Sum>b\<leftarrow>filter (\<lambda>b. s \<le> bill_createdAt b \<and> bill_createdAt b \<le> e)
                               (bills st). int_value (Some (total b))) \<le> 2 ^ 53"
  show "\<exists>vs. map revenue (hourlyBreakdown r) = map (\<lambda>v. Num (of_int v)) vs
                    \<and> totalRevenue r = Num (of_int (sum_list vs))"
  proof (cases "getTime (date r @ ''T00:00:00'') = None
              \<or> getTime (date r @ ''T23:59:59'') = None")
    case True
    then have "map revenue (hourlyBreakdown r) = map (\<lambda>v. Num (of_int v)) (map (\<lambda>h. 0) [0..<24])"
      and "totalRevenue r = Num (of_int (sum_list (map (\<lambda>h. 0) [0..<24])))"
      unfolding assms(1) by (simp_all only: daily_report_NaN(2,4)) simp_all
    then show ?thesis by blast
  next
    case False
    then obtain s e where se: "getTime (date r @ ''T00:00:00'') = Some s"
      "getTime (date r @ ''T23:59:59'') = Some e"
      by auto
    with assms(2) have short: "e < s + 24 * 3600 * 1000" by blast
    define D where "D = filter (\<lambda>b. s \<le> bill_createdAt b \<and> bill_createdAt b \<le> e) (bills st)"
    let ?v = "\<lambda>b. int_value (Some (total b))"
    let ?B = "\<lambda>h b. s + int h * 3600000 \<le> bill_createdAt b
                   \<and> bill_createdAt b \<le> s + int h * 3600000 + 3600000 - 1"
    from size se have ok: "\<forall>b\<in>set D. holds_int (Some (total b)) \<and> 0 \<le> ?v b"
      and small: "(\<Sum>b\<leftarrow>D. ?v b) \<le> 2 ^ 53"
      unfolding D_def by blast+
    have tot: "totalRevenue r = Num (of_int (\<Sum>b\<leftarrow>D. ?v b))"
      using se unfolding assms(1) D_def
      by (simp only: totals_daily_report(2))
         (rule revenue_exact [OF ok [unfolded D_def] small [unfolded D_def]])
    have bucket: "foldl (\<lambda>a b. fadd a (num_or (Some (total b)) (Num 0))) (Num 0)
                     (filter (?B h) D)
                  = Num (of_int (\<Sum>b\<leftarrow>filter (?B h) D. ?v b))" for h
    proof (rule revenue_exact)
      show "\<forall>b\<in>set (filter (?B h) D). holds_int (Some (total b)) \<and> 0 \<le> ?v b"
        using ok by simp
      have "(\<Sum>b\<leftarrow>filter (?B h) D. ?v b) \<le> (\<Sum>b\<leftarrow>D. ?v b)"
        by (rule sum_list_filter_le) (use ok in simp)
      with small show "(\<Sum>b\<leftarrow>filter (?B h) D. ?v b) \<le> 2 ^ 53" by simp
    qed
    have hourly: "map revenue (hourlyBreakdown r)
                  = map (\<lambda>v. Num (of_int v))
                      (map (\<lambda>h. \<Sum>b\<leftarrow>filter (?B h) D. ?v b) [0..<24])"
    proof -
      have "map revenue (hourlyBreakdown r)
            = map (\<lambda>h. foldl (\<lambda>a b. fadd a (num_or (Some (total b)) (Num 0))) (Num 0)
                         (filter (?B h) D)) [0..<24]"
        using se unfolding assms(1) D_def by (rule hourly_daily_report(2))
      then show ?thesis unfolding bucket by (simp only: map_map o_def)
    qed
    have "sum_list (map (\<lambda>h. \<Sum>b\<leftarrow>filter (?B h) D. ?v b) [0..<24]) = (\<Sum>b\<leftarrow>D. ?v b)"
      unfolding D_def by (rule hourly_sums(2) [OF short])
    with tot have "totalRevenue r
        = Num (of_int (sum_list (map (\<lambda>h. \<Sum>b\<leftarrow>filter (?B h) D. ?v b) [0..<24])))"
      by simp
    with hourly show ?thesis by blast
  qed
qed

theorem hourly_breakdown_partition_witness:
  "new_york_time (date (daily_report new_york_time ''2025-11-16''
        (Some ''2025-11-15'') two_bill_store) @ ''T00:00:00'') = Some 1763182800000
   \<and> new_york_time (date (daily_report new_york_time ''2025-11-16''
        (Some ''2025-11-15'') two_bill_store) @ ''T23:59:59'') = Some 1763269199000
   \<and> (1763269199000 :: int) < 1763182800000 + 24 * 3600 * 1000
   \<and> map bill_createdAt (bills two_bill_store) = [1763184248360, 1763184601755]
   \<and> map total (bills two_bill_store) = [Num 161, Num 43]
   \<and> length (hourlyBreakdown
        (daily_report new_york_time ''2025-11-16'' (Some ''2025-11-15'') two_bill_store))
      = 24
   \<and> sum_list (map hour_orders (hourlyBreakdown
        (daily_report new_york_time ''2025-11-16'' (Some ''2025-11-15'') two_bill_store)))
      = 2
   \<and> totalOrders
        (daily_report new_york_time ''2025-11-16'' (Some ''2025-11-15'') two_bill_store)
      = 2
   \<and> map revenue (hourlyBreakdown
        (daily_report new_york_time ''2025-11-16'' (Some ''2025-11-15'') two_bill_store))
      = Num 204 # replicate 23 (Num 0)
   \<and> totalRevenue
        (daily_report new_york_time ''2025-11-16'' (Some ''2025-11-15'') two_bill_store)
      = Num 204"
proof -
  let ?r = "daily_report new_york_time ''2025-11-16'' (Some ''2025-11-15'') two_bill_store"
  from two_bill_store_obtain obtain b1 b2 where b: "bills two_bill_store = [b1, b2]"
    and b1: "bill_createdAt b1 = 1763184248360" "total b1 = Num 161"
    and b2: "bill_createdAt b2 = 1763184601755" "total b2 = Num 43"
    by blast
  have h: "\<forall>s e. new_york_time (date ?r @ ''T00:00:00'') = Some s
          \<and> new_york_time (date ?r @ ''T23:59:59'') = Some e
          \<longrightarrow> e < s + 24 * 3600 * 1000"
    by (simp add: window_2025_11_15)
  have size: "\<forall>s e. new_york_time (date ?r @ ''T00:00:00'') = Some s
                 \<and> new_york_time (date ?r @ ''T23:59:59'') = Some e
              \<longrightarrow> (\<forall>b\<in>set (filter (\<lambda>b. s \<le> bill_createdAt b \<and> bill_createdAt b \<le> e)
                               (bills two_bill_store)).
                      holds_int (Some (total b)) \<and> 0 \<le> int_value (Some (total b)))
                  \<and> (\<Sum>b\<leftarrow>filter (\<lambda>b. s \<le> bill_createdAt b \<and> bill_createdAt b \<le> e)
                               (bills two_bill_store). int_value (Some (total b))) \<le> 2 ^ 53"
    by (simp add: window_2025_11_15 b b1 b2 holds_int_def int_value_def)
  have n: "totalOrders ?r = 2"
    unfolding report_by_stamps(1) [OF window_2025_11_15] two_bill_store_stamps by simp
  have hr: "map revenue (hourlyBreakdown ?r) = Num 204 # replicate 23 (Num 0)"
    unfolding report_by_stamps(4) [OF window_2025_11_15] two_bill_store_stamps upt_24
    by (simp add: num_or_def fl_numeral numeral_eq_Suc)
  from hourly_breakdown_partition [OF refl h] size
  obtain vs where len: "length (hourlyBreakdown ?r) = 24"
    and orders: "sum_list (map hour_orders (hourlyBreakdown ?r)) = totalOrders ?r"
    and vs: "map revenue (hourlyBreakdown ?r) = map (\<lambda>v. Num (of_int v)) vs"
    and tot: "totalRevenue ?r = Num (of_int (sum_list vs))"
    by blast
  have "inj (\<lambda>v::int. Num (of_int v))" by (simp add: inj_def)
  moreover have "map (\<lambda>v. Num (of_int v)) vs = map (\<lambda>v. Num (of_int v)) (204 # replicate 23 0)"
    unfolding vs [symmetric] hr by simp
  ultimately have "vs = 204 # replicate 23 0"
    by (simp only: inj_map_eq_map)
  with tot have "totalRevenue ?r = Num 204" by (simp add: sum_list_replicate)
  with len orders n hr window_2025_11_15 [of two_bill_store] show ?thesis
    by (simp add: b b1 b2)
qed

end
